theory Spec2Isabelle
  imports Main
begin

section \<open>The element type \<open>T\<close> and its environment\<close>

text \<open>
  \<open>vector.h\<close> is a template over the element type \<open>T\<close>. An object of type \<open>T\<close> either
  carries a value or is in the valid but unspecified state that a move leaves behind.
\<close>

datatype 'a obj = Val 'a | Moved_from

text \<open>
  The compile-time properties of \<open>T\<close> that the source inspects
  (\<open>std::is_nothrow_move_constructible_v\<close>, \<open>std::is_copy_constructible_v\<close>,
  \<open>std::is_nothrow_move_assignable_v\<close>) and the value that \<open>T()\<close> produces.
\<close>

record 'a traits =
  nothrow_move_constructible :: bool
  copy_constructible :: bool
  nothrow_move_assignable :: bool
  value_initialized :: 'a

text \<open>
  Everything outside the two classes: \<open>faults\<close> tells, for each coming call that may
  throw (\<open>operator new\<close>, a constructor or an assignment of \<open>T\<close>), whether it does throw;
  an exhausted list means that no later call throws. \<open>news\<close> and \<open>deletes\<close> count the
  blocks obtained from \<open>operator new\<close> and given back to \<open>operator delete\<close>; \<open>leaked\<close>
  counts the objects whose storage was given back while they were still alive.
\<close>

record env =
  faults :: "bool list"
  news :: nat
  deletes :: nat
  leaked :: nat

datatype exn = Bad_alloc | Element_error

text \<open>
  How a call ends when it does not return: an exception propagates, an \<open>assert\<close> fails, or
  memory is misused (a slot outside its block, an object that is not alive, a constructor
  run over a live object).
\<close>

datatype failure = Raised exn | Assert_failed | Memory_error

definition next_call_throws :: "env \<Rightarrow> bool \<times> env" where
  "next_call_throws e =
     (case faults e of [] \<Rightarrow> (False, e) | t # ts \<Rightarrow> (t, e\<lparr>faults := ts\<rparr>))"

text \<open>\<open>T(args...)\<close>: the object built from the arguments, or \<open>None\<close> when the constructor throws.\<close>

definition T_construct :: "'a \<Rightarrow> env \<Rightarrow> 'a obj option \<times> env" where
  "T_construct arg e =
     (case next_call_throws e of (True, e') \<Rightarrow> (None, e') | (False, e') \<Rightarrow> (Some (Val arg), e'))"

text \<open>\<open>T()\<close>, value initialisation.\<close>

definition T_value_construct :: "'a traits \<Rightarrow> env \<Rightarrow> 'a obj option \<times> env" where
  "T_value_construct T e =
     (case next_call_throws e of
        (True, e') \<Rightarrow> (None, e')
      | (False, e') \<Rightarrow> (Some (Val (value_initialized T)), e'))"

text \<open>\<open>T(const T&)\<close>: the copy has the state of the source, which is not changed.\<close>

definition T_copy_construct :: "'a obj \<Rightarrow> env \<Rightarrow> 'a obj option \<times> env" where
  "T_copy_construct x e =
     (case next_call_throws e of (True, e') \<Rightarrow> (None, e') | (False, e') \<Rightarrow> (Some x, e'))"

text \<open>
  \<open>T(T&&)\<close>: the new object takes the state of the source and the source is left moved-from;
  the result is the pair of the new object and the source afterwards. A move constructor that
  is \<open>noexcept\<close> never consults \<open>faults\<close>; one that throws leaves the source as it was.
\<close>

definition T_move_construct :: "'a traits \<Rightarrow> 'a obj \<Rightarrow> env \<Rightarrow> ('a obj \<times> 'a obj) option \<times> env" where
  "T_move_construct T x e =
     (if nothrow_move_constructible T then (Some (x, Moved_from), e)
      else (case next_call_throws e of
              (True, e') \<Rightarrow> (None, e')
            | (False, e') \<Rightarrow> (Some (x, Moved_from), e')))"

text \<open>\<open>T& operator=(const T&)\<close>: the new state of the target.\<close>

definition T_copy_assign :: "'a obj \<Rightarrow> env \<Rightarrow> 'a obj option \<times> env" where
  "T_copy_assign x e =
     (case next_call_throws e of (True, e') \<Rightarrow> (None, e') | (False, e') \<Rightarrow> (Some x, e'))"

text \<open>\<open>T& operator=(T&&)\<close>: the new state of the target and the source afterwards.\<close>

definition T_move_assign :: "'a traits \<Rightarrow> 'a obj \<Rightarrow> env \<Rightarrow> ('a obj \<times> 'a obj) option \<times> env" where
  "T_move_assign T x e =
     (if nothrow_move_assignable T then (Some (x, Moved_from), e)
      else (case next_call_throws e of
              (True, e') \<Rightarrow> (None, e')
            | (False, e') \<Rightarrow> (Some (x, Moved_from), e')))"

section \<open>Blocks of raw memory\<close>

text \<open>
  A block is the sequence of its slots: \<open>None\<close> is raw, uninitialised memory, \<open>Some x\<close> a
  live object. The null pointer is the empty block. A pointer into a block is the index of
  its slot.
\<close>

type_synonym 'a block = "'a obj option list"

text \<open>Reading \<open>*(p + i)\<close>: the live object in slot \<open>i\<close>.\<close>

definition slot_read :: "'a block \<Rightarrow> nat \<Rightarrow> 'a obj option" where
  "slot_read b i = (if i < length b then b ! i else None)"

text \<open>Placement \<open>new (p + i) T(...)\<close> of a constructed object \<open>x\<close>: the slot has to be raw.\<close>

definition slot_construct :: "'a block \<Rightarrow> nat \<Rightarrow> 'a obj \<Rightarrow> 'a block option" where
  "slot_construct b i x =
     (if i < length b \<and> b ! i = None then Some (b[i := Some x]) else None)"

text \<open>Writing the state \<open>x\<close> into the live object of slot \<open>i\<close>.\<close>

definition slot_assign :: "'a block \<Rightarrow> nat \<Rightarrow> 'a obj \<Rightarrow> 'a block option" where
  "slot_assign b i x =
     (if i < length b \<and> b ! i \<noteq> None then Some (b[i := Some x]) else None)"

text \<open>\<open>std::destroy_at(p + i)\<close>, \<open>(p + i)->~T()\<close>: the slot has to hold a live object.\<close>

definition destroy_at :: "'a block \<Rightarrow> nat \<Rightarrow> 'a block option" where
  "destroy_at b i =
     (if i < length b \<and> b ! i \<noteq> None then Some (b[i := None]) else None)"

text \<open>\<open>std::destroy_n(p + first, n)\<close>.\<close>

fun destroy_n :: "'a block \<Rightarrow> nat \<Rightarrow> nat \<Rightarrow> 'a block option" where
  "destroy_n b first 0 = Some b"
| "destroy_n b first (Suc n) =
     (case destroy_at b first of
        None \<Rightarrow> None
      | Some b' \<Rightarrow> destroy_n b' (Suc first) n)"

section \<open>The standard algorithms used by \<open>Vector\<close>\<close>

text \<open>
  \<open>std::uninitialized_copy_n(src + first, n, dst + d_first)\<close>, between two different blocks.
  When a copy constructor throws, the objects already constructed in the target are destroyed
  (the standard leaves the order open; here each is destroyed as the exception passes it)
  and the exception is thrown again.
\<close>

fun uninitialized_copy_n ::
  "'a block \<Rightarrow> nat \<Rightarrow> nat \<Rightarrow> 'a block \<Rightarrow> nat \<Rightarrow> env \<Rightarrow> failure option \<times> 'a block \<times> env" where
  "uninitialized_copy_n src first 0 dst d_first e = (None, dst, e)"
| "uninitialized_copy_n src first (Suc n) dst d_first e =
     (case slot_read src first of
        None \<Rightarrow> (Some Memory_error, dst, e)
      | Some x \<Rightarrow>
          (case T_copy_construct x e of
             (None, e1) \<Rightarrow> (Some (Raised Element_error), dst, e1)
           | (Some y, e1) \<Rightarrow>
               (case slot_construct dst d_first y of
                  None \<Rightarrow> (Some Memory_error, dst, e1)
                | Some dst1 \<Rightarrow>
                    (case uninitialized_copy_n src (Suc first) n dst1 (Suc d_first) e1 of
                       (Some (Raised ex), dst2, e2) \<Rightarrow>
                         (case destroy_at dst2 d_first of
                            None \<Rightarrow> (Some Memory_error, dst2, e2)
                          | Some dst3 \<Rightarrow> (Some (Raised ex), dst3, e2))
                     | (r, dst2, e2) \<Rightarrow> (r, dst2, e2)))))"

text \<open>
  \<open>std::uninitialized_move_n(src + first, n, dst + d_first)\<close>, between two different blocks:
  the sources are left moved-from. The result holds the source block and the target block.
\<close>

fun uninitialized_move_n ::
  "'a traits \<Rightarrow> 'a block \<Rightarrow> nat \<Rightarrow> nat \<Rightarrow> 'a block \<Rightarrow> nat \<Rightarrow> env
     \<Rightarrow> failure option \<times> 'a block \<times> 'a block \<times> env" where
  "uninitialized_move_n T src first 0 dst d_first e = (None, src, dst, e)"
| "uninitialized_move_n T src first (Suc n) dst d_first e =
     (case slot_read src first of
        None \<Rightarrow> (Some Memory_error, src, dst, e)
      | Some x \<Rightarrow>
          (case T_move_construct T x e of
             (None, e1) \<Rightarrow> (Some (Raised Element_error), src, dst, e1)
           | (Some (y, x'), e1) \<Rightarrow>
               (case slot_construct dst d_first y of
                  None \<Rightarrow> (Some Memory_error, src, dst, e1)
                | Some dst1 \<Rightarrow>
                    (case uninitialized_move_n T (src[first := Some x']) (Suc first) n
                            dst1 (Suc d_first) e1 of
                       (Some (Raised ex), src2, dst2, e2) \<Rightarrow>
                         (case destroy_at dst2 d_first of
                            None \<Rightarrow> (Some Memory_error, src2, dst2, e2)
                          | Some dst3 \<Rightarrow> (Some (Raised ex), src2, dst3, e2))
                     | (r, src2, dst2, e2) \<Rightarrow> (r, src2, dst2, e2)))))"

text \<open>\<open>std::uninitialized_value_construct_n(b + first, n)\<close>, with the same roll-back.\<close>

fun uninitialized_value_construct_n ::
  "'a traits \<Rightarrow> 'a block \<Rightarrow> nat \<Rightarrow> nat \<Rightarrow> env \<Rightarrow> failure option \<times> 'a block \<times> env" where
  "uninitialized_value_construct_n T b first 0 e = (None, b, e)"
| "uninitialized_value_construct_n T b first (Suc n) e =
     (case T_value_construct T e of
        (None, e1) \<Rightarrow> (Some (Raised Element_error), b, e1)
      | (Some y, e1) \<Rightarrow>
          (case slot_construct b first y of
             None \<Rightarrow> (Some Memory_error, b, e1)
           | Some b1 \<Rightarrow>
               (case uninitialized_value_construct_n T b1 (Suc first) n e1 of
                  (Some (Raised ex), b2, e2) \<Rightarrow>
                    (case destroy_at b2 first of
                       None \<Rightarrow> (Some Memory_error, b2, e2)
                     | Some b3 \<Rightarrow> (Some (Raised ex), b3, e2))
                | (r, b2, e2) \<Rightarrow> (r, b2, e2))))"

text \<open>
  The loop of \<open>std::copy\<close>, \<open>*d_first++ = *first++\<close> run \<open>n\<close> times between two different
  blocks, and \<open>std::copy(src + first, src + last, dst + d_first)\<close> itself. An exception stops
  the loop; nothing is rolled back.
\<close>

fun copy_loop ::
  "'a block \<Rightarrow> nat \<Rightarrow> nat \<Rightarrow> 'a block \<Rightarrow> nat \<Rightarrow> env \<Rightarrow> failure option \<times> 'a block \<times> env" where
  "copy_loop src first 0 dst d_first e = (None, dst, e)"
| "copy_loop src first (Suc n) dst d_first e =
     (case slot_read src first of
        None \<Rightarrow> (Some Memory_error, dst, e)
      | Some x \<Rightarrow>
          (case T_copy_assign x e of
             (None, e1) \<Rightarrow> (Some (Raised Element_error), dst, e1)
           | (Some y, e1) \<Rightarrow>
               (case slot_assign dst d_first y of
                  None \<Rightarrow> (Some Memory_error, dst, e1)
                | Some dst1 \<Rightarrow> copy_loop src (Suc first) n dst1 (Suc d_first) e1)))"

definition std_copy ::
  "'a block \<Rightarrow> nat \<Rightarrow> nat \<Rightarrow> 'a block \<Rightarrow> nat \<Rightarrow> env \<Rightarrow> failure option \<times> 'a block \<times> env" where
  "std_copy src first last' dst d_first e =
     (if first \<le> last' then copy_loop src first (last' - first) dst d_first e
      else (Some Memory_error, dst, e))"

text \<open>
  The loop of the algorithm \<open>std::move\<close>, \<open>*d_first++ = std::move(*first++)\<close> run \<open>n\<close> times
  inside one block, and \<open>std::move(b + first, b + last, b + d_first)\<close> itself.
\<close>

fun move_loop ::
  "'a traits \<Rightarrow> 'a block \<Rightarrow> nat \<Rightarrow> nat \<Rightarrow> nat \<Rightarrow> env \<Rightarrow> failure option \<times> 'a block \<times> env" where
  "move_loop T b first 0 d_first e = (None, b, e)"
| "move_loop T b first (Suc n) d_first e =
     (case slot_read b first of
        None \<Rightarrow> (Some Memory_error, b, e)
      | Some x \<Rightarrow>
          (case T_move_assign T x e of
             (None, e1) \<Rightarrow> (Some (Raised Element_error), b, e1)
           | (Some (y, x'), e1) \<Rightarrow>
               (case slot_assign (b[first := Some x']) d_first y of
                  None \<Rightarrow> (Some Memory_error, b, e1)
                | Some b1 \<Rightarrow> move_loop T b1 (Suc first) n (Suc d_first) e1)))"

definition std_move ::
  "'a traits \<Rightarrow> 'a block \<Rightarrow> nat \<Rightarrow> nat \<Rightarrow> nat \<Rightarrow> env \<Rightarrow> failure option \<times> 'a block \<times> env" where
  "std_move T b first last' d_first e =
     (if first \<le> last' then move_loop T b first (last' - first) d_first e
      else (Some Memory_error, b, e))"

text \<open>
  The loop of \<open>std::move_backward\<close>, \<open>*(--d_last) = std::move(*(--last))\<close> run \<open>n\<close> times
  inside one block, and \<open>std::move_backward(b + first, b + last, b + d_last)\<close> itself.
\<close>

fun move_backward_loop ::
  "'a traits \<Rightarrow> 'a block \<Rightarrow> nat \<Rightarrow> nat \<Rightarrow> nat \<Rightarrow> env \<Rightarrow> failure option \<times> 'a block \<times> env" where
  "move_backward_loop T b last' 0 d_last e = (None, b, e)"
| "move_backward_loop T b last' (Suc n) d_last e =
     (if last' = 0 \<or> d_last = 0 then (Some Memory_error, b, e)
      else
        (case slot_read b (last' - 1) of
           None \<Rightarrow> (Some Memory_error, b, e)
         | Some x \<Rightarrow>
             (case T_move_assign T x e of
                (None, e1) \<Rightarrow> (Some (Raised Element_error), b, e1)
              | (Some (y, x'), e1) \<Rightarrow>
                  (case slot_assign (b[last' - 1 := Some x']) (d_last - 1) y of
                     None \<Rightarrow> (Some Memory_error, b, e1)
                   | Some b1 \<Rightarrow> move_backward_loop T b1 (last' - 1) n (d_last - 1) e1))))"

definition std_move_backward ::
  "'a traits \<Rightarrow> 'a block \<Rightarrow> nat \<Rightarrow> nat \<Rightarrow> nat \<Rightarrow> env \<Rightarrow> failure option \<times> 'a block \<times> env" where
  "std_move_backward T b first last' d_last e =
     (if first \<le> last' then move_backward_loop T b last' (last' - first) d_last e
      else (Some Memory_error, b, e))"

section \<open>\<open>RawMemory\<close>\<close>

record 'a RawMemory =
  m_buffer :: "'a block"
  m_capacity :: nat

text \<open>\<open>RawMemory() = default\<close>.\<close>

definition RawMemory_default :: "'a RawMemory" where
  "RawMemory_default = \<lparr>m_buffer = [], m_capacity = 0\<rparr>"

text \<open>
  \<open>Allocate(n)\<close>: the null pointer for \<open>n = 0\<close>, else a block of \<open>n\<close> raw slots from
  \<open>operator new\<close>, which may throw \<open>std::bad_alloc\<close>.
\<close>

definition Allocate :: "nat \<Rightarrow> env \<Rightarrow> 'a block option \<times> env" where
  "Allocate n e =
     (if n \<noteq> 0 then
        (case next_call_throws e of
           (True, e') \<Rightarrow> (None, e')
         | (False, e') \<Rightarrow> (Some (replicate n None), e'\<lparr>news := news e' + 1\<rparr>))
      else (Some [], e))"

text \<open>
  \<open>Deallocate(buf)\<close>: \<open>operator delete\<close>, which does nothing on the null pointer. The objects
  still alive in the block are never destroyed afterwards.
\<close>

definition Deallocate :: "'a block \<Rightarrow> env \<Rightarrow> env" where
  "Deallocate buf e =
     e\<lparr>deletes := deletes e + (if buf = [] then 0 else 1),
       leaked := leaked e + length (filter (\<lambda>s. s \<noteq> None) buf)\<rparr>"

text \<open>\<open>explicit RawMemory(size_t capacity)\<close>.\<close>

definition RawMemory_ctor :: "nat \<Rightarrow> env \<Rightarrow> 'a RawMemory option \<times> env" where
  "RawMemory_ctor capacity e =
     (case Allocate capacity e of
        (None, e') \<Rightarrow> (None, e')
      | (Some b, e') \<Rightarrow> (Some \<lparr>m_buffer = b, m_capacity = capacity\<rparr>, e'))"

text \<open>\<open>~RawMemory()\<close>.\<close>

definition RawMemory_dtor :: "'a RawMemory \<Rightarrow> env \<Rightarrow> env" where
  "RawMemory_dtor m e = Deallocate (m_buffer m) e"

text \<open>\<open>operator+(offset)\<close> with its \<open>assert(offset <= m_capacity)\<close>: the index of the slot.\<close>

definition RawMemory_plus :: "'a RawMemory \<Rightarrow> nat \<Rightarrow> nat option" where
  "RawMemory_plus m offset = (if offset \<le> m_capacity m then Some offset else None)"

text \<open>\<open>operator[](index)\<close> with its \<open>assert(index < m_capacity)\<close>: the index of the slot.\<close>

definition RawMemory_index :: "'a RawMemory \<Rightarrow> nat \<Rightarrow> nat option" where
  "RawMemory_index m index = (if index < m_capacity m then Some index else None)"

text \<open>\<open>RawMemory::Swap\<close>: the first component is \<open>*this\<close> afterwards, the second \<open>other\<close>.\<close>

definition RawMemory_Swap :: "'a RawMemory \<Rightarrow> 'a RawMemory \<Rightarrow> 'a RawMemory \<times> 'a RawMemory" where
  "RawMemory_Swap this other =
     (this\<lparr>m_buffer := m_buffer other, m_capacity := m_capacity other\<rparr>,
      other\<lparr>m_buffer := m_buffer this, m_capacity := m_capacity this\<rparr>)"

section \<open>\<open>Vector\<close>\<close>

record 'a Vector =
  m_data :: "'a RawMemory"
  m_size :: nat

definition Capacity :: "'a Vector \<Rightarrow> nat" where
  "Capacity v = m_capacity (m_data v)"

definition Size :: "'a Vector \<Rightarrow> nat" where
  "Size v = m_size v"

text \<open>The slots of the vector's block, and the vector with another block in place.\<close>

definition slots :: "'a Vector \<Rightarrow> 'a block" where
  "slots v = m_buffer (m_data v)"

definition with_slots :: "'a Vector \<Rightarrow> 'a block \<Rightarrow> 'a Vector" where
  "with_slots v b = v\<lparr>m_data := (m_data v)\<lparr>m_buffer := b\<rparr>\<rparr>"

text \<open>
  The invariant of the data model: \<open>size_t\<close> has 64 bits, the block has \<open>capacity_\<close> slots,
  \<open>size \<le> capacity\<close>, the slots \<open>[0, size)\<close> hold live objects and the slots
  \<open>[size, capacity)\<close> are raw.
\<close>

definition size_t_range :: nat where
  "size_t_range = 2 ^ 64"

definition vector_ok :: "'a Vector \<Rightarrow> bool" where
  "vector_ok v \<longleftrightarrow>
     m_capacity (m_data v) < size_t_range \<and>
     length (m_buffer (m_data v)) = m_capacity (m_data v) \<and>
     m_size v \<le> m_capacity (m_data v) \<and>
     list_all (\<lambda>s. s \<noteq> None) (take (m_size v) (m_buffer (m_data v))) \<and>
     list_all (\<lambda>s. s = None) (drop (m_size v) (m_buffer (m_data v)))"

text \<open>The elements of the vector, in order: the objects in the slots \<open>[0, size)\<close>.\<close>

definition elements :: "'a Vector \<Rightarrow> 'a obj list" where
  "elements v = map the (take (m_size v) (m_buffer (m_data v)))"

text \<open>\<open>Vector::PopBack\<close>.\<close>

definition PopBack :: "'a Vector \<times> env \<Rightarrow> (failure + unit) \<times> 'a Vector \<times> env" where
  "PopBack = (\<lambda>(v, e).
     if m_size v > 0 then
       (case destroy_at (slots v) (m_size v - 1) of
          None \<Rightarrow> (Inl Memory_error, v, e)
        | Some b \<Rightarrow> (Inr (), (with_slots v b)\<lparr>m_size := m_size v - 1\<rparr>, e))
     else (Inr (), v, e))"

text \<open>
  \<open>size_ == 0 ? 1 : size_ * 2\<close>, the capacity of the block that replaces a full one; the
  product is computed in \<open>size_t\<close>.
\<close>

definition grown_capacity :: "'a Vector \<Rightarrow> nat" where
  "grown_capacity v = (if m_size v = 0 then 1 else (m_size v * 2) mod size_t_range)"

text \<open>
  The \<open>if constexpr\<close> that \<open>EmplaceBack\<close>, \<open>Reserve\<close> and \<open>MoveOrCopy\<close> share: move when the
  move constructor cannot throw or there is no copy constructor, else copy. The result holds
  the source block and the target block.
\<close>

definition move_or_copy_n ::
  "'a traits \<Rightarrow> 'a block \<Rightarrow> nat \<Rightarrow> nat \<Rightarrow> 'a block \<Rightarrow> nat \<Rightarrow> env
     \<Rightarrow> failure option \<times> 'a block \<times> 'a block \<times> env" where
  "move_or_copy_n T src first n dst d_first e =
     (if nothrow_move_constructible T \<or> \<not> copy_constructible T
      then uninitialized_move_n T src first n dst d_first e
      else (case uninitialized_copy_n src first n dst d_first e of
              (r, dst', e') \<Rightarrow> (r, src, dst', e')))"

text \<open>\<open>Vector::MoveOrCopy(from_vec, size, target_vec)\<close>.\<close>

definition MoveOrCopy ::
  "'a traits \<Rightarrow> 'a block \<Rightarrow> nat \<Rightarrow> nat \<Rightarrow> 'a block \<Rightarrow> nat \<Rightarrow> env
     \<Rightarrow> failure option \<times> 'a block \<times> 'a block \<times> env" where
  "MoveOrCopy T from_vec first n target_vec d_first e =
     (case move_or_copy_n T from_vec first n target_vec d_first e of
        (Some f, src, dst, e1) \<Rightarrow> (Some f, src, dst, e1)
      | (None, src, dst, e1) \<Rightarrow>
          (case destroy_n src first n of
             None \<Rightarrow> (Some Memory_error, src, dst, e1)
           | Some src' \<Rightarrow> (None, src', dst, e1)))"

text \<open>
  The end of both reallocating paths: \<open>data_.Swap(temp)\<close>, \<open>++size_\<close>, and the destructor of
  the local \<open>RawMemory\<close>, which now owns the old block \<open>old\<close>. The new block is \<open>tb\<close>.
\<close>

definition swap_in :: "'a Vector \<Rightarrow> 'a block \<Rightarrow> 'a RawMemory \<Rightarrow> 'a block \<Rightarrow> env \<Rightarrow> 'a Vector \<times> env" where
  "swap_in v old temp tb e =
     (case RawMemory_Swap ((m_data v)\<lparr>m_buffer := old\<rparr>) (temp\<lparr>m_buffer := tb\<rparr>) of
        (d, temp') \<Rightarrow> (v\<lparr>m_data := d\<rparr>, RawMemory_dtor temp' e))"

text \<open>
  \<open>Vector::EmplaceBack(args...)\<close>. The reference it returns is given as the index of the new
  element.
\<close>

definition EmplaceBack :: "'a traits \<Rightarrow> 'a \<Rightarrow> 'a Vector \<times> env \<Rightarrow> (failure + nat) \<times> 'a Vector \<times> env" where
  "EmplaceBack T arg = (\<lambda>(v, e).
     if m_size v = Capacity v then
       (case RawMemory_ctor (grown_capacity v) e of
          (None, e1) \<Rightarrow> (Inl (Raised Bad_alloc), v, e1)
        | (Some temp_data, e1) \<Rightarrow>
            (case RawMemory_plus temp_data (m_size v) of
               None \<Rightarrow> (Inl Assert_failed, v, e1)
             | Some t \<Rightarrow>
                 (case T_construct arg e1 of
                    (None, e2) \<Rightarrow> (Inl (Raised Element_error), v, RawMemory_dtor temp_data e2)
                  | (Some x, e2) \<Rightarrow>
                      (case slot_construct (m_buffer temp_data) t x of
                         None \<Rightarrow> (Inl Memory_error, v, e2)
                       | Some tb \<Rightarrow>
                           (case move_or_copy_n T (slots v) 0 (m_size v) tb 0 e2 of
                              (Some (Raised ex), src, tb1, e3) \<Rightarrow>
                                (Inl (Raised ex), with_slots v src, Deallocate tb1 e3)
                            | (Some f, src, tb1, e3) \<Rightarrow> (Inl f, with_slots v src, e3)
                            | (None, src, tb1, e3) \<Rightarrow>
                                (case destroy_n src 0 (m_size v) of
                                   None \<Rightarrow> (Inl Memory_error, with_slots v src, e3)
                                 | Some old \<Rightarrow>
                                     (case swap_in v old temp_data tb1 e3 of
                                        (v', e4) \<Rightarrow>
                                          (Inr t, v'\<lparr>m_size := m_size v + 1\<rparr>, e4))))))))
     else
       (case RawMemory_plus (m_data v) (m_size v) of
          None \<Rightarrow> (Inl Assert_failed, v, e)
        | Some t \<Rightarrow>
            (case T_construct arg e of
               (None, e1) \<Rightarrow> (Inl (Raised Element_error), v, e1)
             | (Some x, e1) \<Rightarrow>
                 (case slot_construct (slots v) t x of
                    None \<Rightarrow> (Inl Memory_error, v, e1)
                  | Some b \<Rightarrow> (Inr t, (with_slots v b)\<lparr>m_size := m_size v + 1\<rparr>, e1)))))"

text \<open>\<open>Vector::PushBack\<close>, both overloads.\<close>

definition PushBack :: "'a traits \<Rightarrow> 'a \<Rightarrow> 'a Vector \<times> env \<Rightarrow> (failure + unit) \<times> 'a Vector \<times> env" where
  "PushBack T val = (\<lambda>(v, e).
     case EmplaceBack T val (v, e) of
       (Inl f, v', e') \<Rightarrow> (Inl f, v', e')
     | (Inr t, v', e') \<Rightarrow> (Inr (), v', e'))"

text \<open>\<open>Vector::Reserve(new_capacity)\<close>.\<close>

definition Reserve :: "'a traits \<Rightarrow> nat \<Rightarrow> 'a Vector \<times> env \<Rightarrow> (failure + unit) \<times> 'a Vector \<times> env" where
  "Reserve T new_capacity = (\<lambda>(v, e).
     if new_capacity \<le> m_capacity (m_data v) then (Inr (), v, e)
     else
       (case RawMemory_ctor new_capacity e of
          (None, e1) \<Rightarrow> (Inl (Raised Bad_alloc), v, e1)
        | (Some temp_data, e1) \<Rightarrow>
            (case move_or_copy_n T (slots v) 0 (m_size v) (m_buffer temp_data) 0 e1 of
               (Some (Raised ex), src, tb1, e2) \<Rightarrow>
                 (Inl (Raised ex), with_slots v src, Deallocate tb1 e2)
             | (Some f, src, tb1, e2) \<Rightarrow> (Inl f, with_slots v src, e2)
             | (None, src, tb1, e2) \<Rightarrow>
                 (case destroy_n src 0 (m_size v) of
                    None \<Rightarrow> (Inl Memory_error, with_slots v src, e2)
                  | Some old \<Rightarrow>
                      (case swap_in v old temp_data tb1 e2 of
                         (v', e3) \<Rightarrow> (Inr (), v', e3))))))"

text \<open>
  \<open>Vector::Emplace(pos, args...)\<close>. The iterator \<open>pos\<close> is given as the index \<open>pos - begin()\<close>,
  and so is the iterator that the function returns.
\<close>

definition Emplace :: "'a traits \<Rightarrow> nat \<Rightarrow> 'a \<Rightarrow> 'a Vector \<times> env \<Rightarrow> (failure + nat) \<times> 'a Vector \<times> env" where
  "Emplace T pos arg = (\<lambda>(v, e).
     if \<not> pos \<le> m_size v then (Inl Assert_failed, v, e)
     else if pos = m_size v then EmplaceBack T arg (v, e)
     else if m_size v = Capacity v then
       (let i = pos in
        case RawMemory_ctor (grown_capacity v) e of
          (None, e1) \<Rightarrow> (Inl (Raised Bad_alloc), v, e1)
        | (Some temp_vec, e1) \<Rightarrow>
            (case RawMemory_plus temp_vec i of
               None \<Rightarrow> (Inl Assert_failed, v, e1)
             | Some p \<Rightarrow>
                 (case T_construct arg e1 of
                    (None, e2) \<Rightarrow> (Inl (Raised Element_error), v, RawMemory_dtor temp_vec e2)
                  | (Some x, e2) \<Rightarrow>
                      (case slot_construct (m_buffer temp_vec) p x of
                         None \<Rightarrow> (Inl Memory_error, v, e2)
                       | Some tb \<Rightarrow>
                           (case MoveOrCopy T (slots v) 0 i tb 0 e2 of
                              (Some (Raised ex), src1, tb1, e3) \<Rightarrow>
                                (case RawMemory_index temp_vec i of
                                   None \<Rightarrow> (Inl Assert_failed, with_slots v src1, e3)
                                 | Some q \<Rightarrow>
                                     (case destroy_at tb1 q of
                                        None \<Rightarrow> (Inl Memory_error, with_slots v src1, e3)
                                      | Some tb2 \<Rightarrow>
                                          (Inl (Raised ex), with_slots v src1, Deallocate tb2 e3)))
                            | (Some f, src1, tb1, e3) \<Rightarrow> (Inl f, with_slots v src1, e3)
                            | (None, src1, tb1, e3) \<Rightarrow>
                                (case (RawMemory_plus (m_data v) i, RawMemory_plus temp_vec (i + 1)) of
                                   (Some from_vec, Some target_vec) \<Rightarrow>
                                     (case MoveOrCopy T src1 from_vec (m_size v - i) tb1 target_vec e3 of
                                        (Some (Raised ex), src2, tb2, e4) \<Rightarrow>
                                          (case destroy_n tb2 0 (i + 1) of
                                             None \<Rightarrow> (Inl Memory_error, with_slots v src2, e4)
                                           | Some tb3 \<Rightarrow>
                                               (Inl (Raised ex), with_slots v src2, Deallocate tb3 e4))
                                      | (Some f, src2, tb2, e4) \<Rightarrow> (Inl f, with_slots v src2, e4)
                                      | (None, src2, tb2, e4) \<Rightarrow>
                                          (case swap_in v src2 temp_vec tb2 e4 of
                                             (v', e5) \<Rightarrow>
                                               (Inr i, v'\<lparr>m_size := m_size v + 1\<rparr>, e5)))
                                 | _ \<Rightarrow> (Inl Assert_failed, with_slots v src1, e3)))))))
     else
       (let i = pos in
        case T_construct arg e of
          (None, e1) \<Rightarrow> (Inl (Raised Element_error), v, e1)
        | (Some temp, e1) \<Rightarrow>
            (case RawMemory_index (m_data v) (m_size v - 1) of
               None \<Rightarrow> (Inl Assert_failed, v, e1)
             | Some l \<Rightarrow>
                 (case slot_read (slots v) l of
                    None \<Rightarrow> (Inl Memory_error, v, e1)
                  | Some back \<Rightarrow>
                      (case T_move_construct T back e1 of
                         (None, e2) \<Rightarrow> (Inl (Raised Element_error), v, e2)
                       | (Some (y, back'), e2) \<Rightarrow>
                           (case slot_construct ((slots v)[l := Some back']) (m_size v) y of
                              None \<Rightarrow> (Inl Memory_error, v, e2)
                            | Some b1 \<Rightarrow>
                                (case std_move_backward T b1 i (m_size v - 1) (m_size v) e2 of
                                   (Some f, b2, e3) \<Rightarrow> (Inl f, with_slots v b2, e3)
                                 | (None, b2, e3) \<Rightarrow>
                                     (case RawMemory_index (m_data v) i of
                                        None \<Rightarrow> (Inl Assert_failed, with_slots v b2, e3)
                                      | Some q \<Rightarrow>
                                          (case T_move_assign T temp e3 of
                                             (None, e4) \<Rightarrow>
                                               (Inl (Raised Element_error), with_slots v b2, e4)
                                           | (Some (z, temp'), e4) \<Rightarrow>
                                               (case slot_assign b2 q z of
                                                  None \<Rightarrow> (Inl Memory_error, with_slots v b2, e4)
                                                | Some b3 \<Rightarrow>
                                                    (Inr i, (with_slots v b3)\<lparr>m_size := m_size v + 1\<rparr>,
                                                     e4)))))))))))"

text \<open>\<open>Vector::Insert\<close>, both overloads.\<close>

definition Insert :: "'a traits \<Rightarrow> nat \<Rightarrow> 'a \<Rightarrow> 'a Vector \<times> env \<Rightarrow> (failure + nat) \<times> 'a Vector \<times> env" where
  "Insert T pos val = Emplace T pos val"

text \<open>\<open>Vector::Erase(pos)\<close>, with iterators as indices.\<close>

definition Erase :: "'a traits \<Rightarrow> nat \<Rightarrow> 'a Vector \<times> env \<Rightarrow> (failure + nat) \<times> 'a Vector \<times> env" where
  "Erase T pos = (\<lambda>(v, e).
     if \<not> pos < m_size v then (Inl Assert_failed, v, e)
     else
       (let space = pos in
        case std_move T (slots v) (space + 1) (m_size v) space e of
          (Some f, b, e1) \<Rightarrow> (Inl f, with_slots v b, e1)
        | (None, b, e1) \<Rightarrow>
            (case PopBack (with_slots v b, e1) of
               (Inl f, v', e2) \<Rightarrow> (Inl f, v', e2)
             | (Inr u, v', e2) \<Rightarrow> (Inr space, v', e2))))"

text \<open>\<open>Vector::Resize(new_size)\<close>.\<close>

definition Resize :: "'a traits \<Rightarrow> nat \<Rightarrow> 'a Vector \<times> env \<Rightarrow> (failure + unit) \<times> 'a Vector \<times> env" where
  "Resize T new_size = (\<lambda>(v, e).
     if m_size v = new_size then (Inr (), v, e)
     else if m_size v > new_size then
       (case destroy_n (slots v) new_size (m_size v - new_size) of
          None \<Rightarrow> (Inl Memory_error, v, e)
        | Some b \<Rightarrow> (Inr (), (with_slots v b)\<lparr>m_size := new_size\<rparr>, e))
     else
       (case Reserve T new_size (v, e) of
          (Inl f, v1, e1) \<Rightarrow> (Inl f, v1, e1)
        | (Inr u, v1, e1) \<Rightarrow>
            (case uninitialized_value_construct_n T (slots v1) (m_size v1)
                    (new_size - m_size v1) e1 of
               (Some f, b, e2) \<Rightarrow> (Inl f, with_slots v1 b, e2)
             | (None, b, e2) \<Rightarrow> (Inr (), (with_slots v1 b)\<lparr>m_size := new_size\<rparr>, e2))))"

text \<open>\<open>Vector() = default\<close>.\<close>

definition Vector_default :: "'a Vector" where
  "Vector_default = \<lparr>m_data = RawMemory_default, m_size = 0\<rparr>"

text \<open>
  \<open>Vector(const Vector& other)\<close>. When the body throws, the member \<open>data_\<close>, already
  constructed, is destroyed.
\<close>

definition Vector_copy_ctor :: "'a traits \<Rightarrow> 'a Vector \<Rightarrow> env \<Rightarrow> (failure + 'a Vector) \<times> env" where
  "Vector_copy_ctor T other e =
     (case RawMemory_ctor (m_size other) e of
        (None, e1) \<Rightarrow> (Inl (Raised Bad_alloc), e1)
      | (Some d, e1) \<Rightarrow>
          (case uninitialized_copy_n (slots other) 0 (m_size other) (m_buffer d) 0 e1 of
             (Some (Raised ex), b, e2) \<Rightarrow> (Inl (Raised ex), RawMemory_dtor (d\<lparr>m_buffer := b\<rparr>) e2)
           | (Some f, b, e2) \<Rightarrow> (Inl f, e2)
           | (None, b, e2) \<Rightarrow> (Inr \<lparr>m_data = d\<lparr>m_buffer := b\<rparr>, m_size = m_size other\<rparr>, e2)))"

text \<open>\<open>Vector::Swap(other)\<close>: the first component is \<open>*this\<close> afterwards, the second \<open>other\<close>.\<close>

definition Swap :: "'a Vector \<Rightarrow> 'a Vector \<Rightarrow> 'a Vector \<times> 'a Vector" where
  "Swap this other =
     (case RawMemory_Swap (m_data this) (m_data other) of
        (d, d') \<Rightarrow> (this\<lparr>m_data := d, m_size := m_size other\<rparr>,
                    other\<lparr>m_data := d', m_size := m_size this\<rparr>))"

text \<open>
  \<open>Vector(Vector&& other) noexcept\<close>: the members start from their default initialisers and
  are swapped with those of \<open>other\<close>. The result holds the new vector and \<open>other\<close> afterwards.
\<close>

definition Vector_move_ctor :: "'a Vector \<times> env \<Rightarrow> (failure + 'a Vector) \<times> 'a Vector \<times> env" where
  "Vector_move_ctor = (\<lambda>(other, e).
     case Swap Vector_default other of (this, other') \<Rightarrow> (Inr this, other', e))"

text \<open>\<open>~Vector()\<close>, followed by the destructor of the member \<open>data_\<close>.\<close>

definition Vector_dtor :: "'a Vector \<Rightarrow> env \<Rightarrow> failure option \<times> env" where
  "Vector_dtor v e =
     (case destroy_n (slots v) 0 (m_size v) of
        None \<Rightarrow> (Some Memory_error, e)
      | Some b \<Rightarrow> (None, RawMemory_dtor ((m_data v)\<lparr>m_buffer := b\<rparr>) e))"

text \<open>
  The body of \<open>operator=(const Vector& rhs)\<close> under \<open>this != &rhs\<close>, on the two distinct
  objects; \<open>rhs\<close> is \<open>const\<close>.
\<close>

definition assign_copy :: "'a traits \<Rightarrow> 'a Vector \<Rightarrow> 'a Vector \<Rightarrow> env \<Rightarrow> (failure + unit) \<times> 'a Vector \<times> env" where
  "assign_copy T this rhs e =
     (if m_capacity (m_data this) < m_size rhs then
        (case Vector_copy_ctor T rhs e of
           (Inl f, e1) \<Rightarrow> (Inl f, this, e1)
         | (Inr rhs_copy, e1) \<Rightarrow>
             (case Swap this rhs_copy of
                (this', rhs_copy') \<Rightarrow>
                  (case Vector_dtor rhs_copy' e1 of
                     (Some f, e2) \<Rightarrow> (Inl f, this', e2)
                   | (None, e2) \<Rightarrow> (Inr (), this', e2))))
      else if m_size rhs < m_size this then
        (case std_copy (slots rhs) 0 (m_size rhs) (slots this) 0 e of
           (Some f, b, e1) \<Rightarrow> (Inl f, with_slots this b, e1)
         | (None, b, e1) \<Rightarrow>
             (case destroy_n b (m_size rhs) (m_size this - m_size rhs) of
                None \<Rightarrow> (Inl Memory_error, with_slots this b, e1)
              | Some b' \<Rightarrow> (Inr (), (with_slots this b')\<lparr>m_size := m_size rhs\<rparr>, e1)))
      else
        (case std_copy (slots rhs) 0 (m_size this) (slots this) 0 e of
           (Some f, b, e1) \<Rightarrow> (Inl f, with_slots this b, e1)
         | (None, b, e1) \<Rightarrow>
             (case uninitialized_copy_n (slots rhs) (m_size this) (m_size rhs - m_size this)
                     b (m_size this) e1 of
                (Some f, b', e2) \<Rightarrow> (Inl f, with_slots this b', e2)
              | (None, b', e2) \<Rightarrow> (Inr (), (with_slots this b')\<lparr>m_size := m_size rhs\<rparr>, e2))))"

section \<open>Vectors as objects with an address\<close>

text \<open>
  The assignment operators compare the addresses of their operands, so there the vectors
  live in a store, from addresses to objects.
\<close>

type_synonym 'a store = "nat \<Rightarrow> 'a Vector option"

text \<open>\<open>Vector& operator=(const Vector& rhs)\<close>, for \<open>*this\<close> at address \<open>this\<close> and \<open>rhs\<close> at \<open>rhs\<close>.\<close>

definition copy_assignment :: "'a traits \<Rightarrow> nat \<Rightarrow> nat \<Rightarrow> 'a store \<times> env \<Rightarrow> (failure + unit) \<times> 'a store \<times> env" where
  "copy_assignment T this rhs = (\<lambda>(h, e).
     if this \<noteq> rhs then
       (case (h this, h rhs) of
          (Some l, Some r) \<Rightarrow>
            (case assign_copy T l r e of (res, l', e') \<Rightarrow> (res, h(this \<mapsto> l'), e'))
        | _ \<Rightarrow> (Inl Memory_error, h, e))
     else (Inr (), h, e))"

text \<open>\<open>Vector& operator=(Vector&& rhs) noexcept\<close>.\<close>

definition move_assignment :: "nat \<Rightarrow> nat \<Rightarrow> 'a store \<times> env \<Rightarrow> (failure + unit) \<times> 'a store \<times> env" where
  "move_assignment this rhs = (\<lambda>(h, e).
     if this \<noteq> rhs then
       (case (h this, h rhs) of
          (Some l, Some r) \<Rightarrow>
            (case Swap l r of (l', r') \<Rightarrow> (Inr (), h(this \<mapsto> l', rhs \<mapsto> r'), e))
        | _ \<Rightarrow> (Inl Memory_error, h, e))
     else (Inr (), h, e))"

text \<open>
  From \<open>e\<close> to \<open>e'\<close> nothing happened but calls that may throw: no block was obtained or
  given back, nothing leaked, and \<open>faults e'\<close> is what is left of \<open>faults e\<close>.
\<close>

definition only_faults_used :: "env \<Rightarrow> env \<Rightarrow> bool" where
  "only_faults_used e e' \<longleftrightarrow>
     news e' = news e \<and> deletes e' = deletes e \<and> leaked e' = leaked e \<and>
     faults e' = drop (length (faults e) - length (faults e')) (faults e)"

section \<open>Vectors in a heap of blocks\<close>

text \<open>
  For what a vector shares with another one, blocks have an identity: the heap maps the
  address that \<open>operator new\<close> returned to the block that lives there. Address 0 is
  \<open>nullptr\<close>, where no block lives, and an address that \<open>operator delete\<close> was given is
  free again.
\<close>

type_synonym 'a heap = "nat \<Rightarrow> 'a block option"

text \<open>
  The members of a \<open>Vector\<close> object as the source declares them: \<open>data_.buffer_\<close> is a pointer,
  \<open>data_.capacity_\<close> and \<open>size_\<close> are numbers.
\<close>

record Vector_object =
  p_buffer :: nat
  p_capacity :: nat
  p_size :: nat

text \<open>The block that a pointer refers to, and a write through a pointer.\<close>

definition block_at :: "'a heap \<Rightarrow> nat \<Rightarrow> 'a block" where
  "block_at h p = (case h p of None \<Rightarrow> [] | Some b \<Rightarrow> b)"

definition put_block :: "nat \<Rightarrow> 'a block \<Rightarrow> 'a heap \<Rightarrow> 'a heap" where
  "put_block p b h = (case h p of None \<Rightarrow> h | Some old \<Rightarrow> h(p \<mapsto> b))"

text \<open>The vector that an object denotes in a heap: its block is read through \<open>buffer_\<close>.\<close>

definition vector_at :: "'a heap \<Rightarrow> Vector_object \<Rightarrow> 'a Vector" where
  "vector_at h w =
     \<lparr>m_data = \<lparr>m_buffer = block_at h (p_buffer w), m_capacity = p_capacity w\<rparr>,
      m_size = p_size w\<rparr>"

text \<open>
  \<open>RawMemory::Allocate\<close> and \<open>RawMemory::Deallocate\<close> on the heap; \<open>a\<close> is the address that
  \<open>operator new\<close> returns when it succeeds.
\<close>

definition Allocate_at :: "nat \<Rightarrow> nat \<Rightarrow> 'a heap \<times> env \<Rightarrow> nat option \<times> 'a heap \<times> env" where
  "Allocate_at a n = (\<lambda>(h, e).
     if n \<noteq> 0 then
       (case next_call_throws e of
          (True, e') \<Rightarrow> (None, h, e')
        | (False, e') \<Rightarrow> (Some a, h(a \<mapsto> replicate n None), e'\<lparr>news := news e' + 1\<rparr>))
     else (Some 0, h, e))"

definition Deallocate_at :: "nat \<Rightarrow> 'a heap \<times> env \<Rightarrow> 'a heap \<times> env" where
  "Deallocate_at p = (\<lambda>(h, e).
     if p = 0 then (h, e)
     else (h(p := None),
           e\<lparr>deletes := deletes e + 1,
             leaked := leaked e + length (filter (\<lambda>s. s \<noteq> None) (block_at h p))\<rparr>))"

text \<open>
  \<open>Vector(const Vector& other)\<close>: \<open>data_(other.size_)\<close>, \<open>size_(other.size_)\<close>, then
  \<open>std::uninitialized_copy_n(other.data_.GetAddress(), other.size_, data_.GetAddress())\<close>
  from the block of \<open>other\<close> into the new block. When a copy throws, the objects copied so
  far have been destroyed by \<open>uninitialized_copy_n\<close> and the destructor of \<open>data_\<close> gives the
  block back.
\<close>

definition Vector_copy_ctor_at ::
  "'a traits \<Rightarrow> nat \<Rightarrow> Vector_object \<Rightarrow> 'a heap \<times> env
     \<Rightarrow> (failure + Vector_object) \<times> 'a heap \<times> env" where
  "Vector_copy_ctor_at T a other = (\<lambda>(h, e).
     case Allocate_at a (p_size other) (h, e) of
       (None, h1, e1) \<Rightarrow> (Inl (Raised Bad_alloc), h1, e1)
     | (Some p, h1, e1) \<Rightarrow>
         (case uninitialized_copy_n (block_at h1 (p_buffer other)) 0 (p_size other)
                 (block_at h1 p) 0 e1 of
            (Some (Raised ex), b, e2) \<Rightarrow>
              (case Deallocate_at p (put_block p b h1, e2) of
                 (h2, e3) \<Rightarrow> (Inl (Raised ex), h2, e3))
          | (Some f, b, e2) \<Rightarrow> (Inl f, put_block p b h1, e2)
          | (None, b, e2) \<Rightarrow>
              (Inr \<lparr>p_buffer = p, p_capacity = p_size other, p_size = p_size other\<rparr>,
               put_block p b h1, e2)))"

text \<open>
  \<open>operator[]\<close> returns a reference into the block of the vector, here the address of the block
  and the index; \<open>v[index] = val\<close> is the copy assignment of \<open>T\<close> through that reference.
\<close>

definition Vector_index :: "Vector_object \<Rightarrow> nat \<Rightarrow> failure + nat \<times> nat" where
  "Vector_index w index =
     (if \<not> index < p_size w then Inl Assert_failed
      else if \<not> index < p_capacity w then Inl Assert_failed
      else Inr (p_buffer w, index))"

definition assign_through ::
  "'a \<Rightarrow> nat \<times> nat \<Rightarrow> 'a heap \<times> env \<Rightarrow> (failure + unit) \<times> 'a heap \<times> env" where
  "assign_through val = (\<lambda>(p, i) (h, e).
     case T_copy_assign (Val val) e of
       (None, e') \<Rightarrow> (Inl (Raised Element_error), h, e')
     | (Some y, e') \<Rightarrow>
         (case slot_assign (block_at h p) i y of
            None \<Rightarrow> (Inl Memory_error, h, e')
          | Some b \<Rightarrow> (Inr (), put_block p b h, e')))"

definition index_assign ::
  "Vector_object \<Rightarrow> nat \<Rightarrow> 'a \<Rightarrow> 'a heap \<times> env \<Rightarrow> (failure + unit) \<times> 'a heap \<times> env" where
  "index_assign w index val = (\<lambda>(h, e).
     case Vector_index w index of
       Inl f \<Rightarrow> (Inl f, h, e)
     | Inr r \<Rightarrow> assign_through val r (h, e))"

text \<open>\<open>PopBack\<close> and \<open>EmplaceBack\<close> on an object in the heap.\<close>

definition PopBack_at ::
  "Vector_object \<Rightarrow> 'a heap \<times> env \<Rightarrow> (failure + unit) \<times> Vector_object \<times> 'a heap \<times> env" where
  "PopBack_at w = (\<lambda>(h, e).
     if p_size w > 0 then
       (case destroy_at (block_at h (p_buffer w)) (p_size w - 1) of
          None \<Rightarrow> (Inl Memory_error, w, h, e)
        | Some b \<Rightarrow> (Inr (), w\<lparr>p_size := p_size w - 1\<rparr>, put_block (p_buffer w) b h, e))
     else (Inr (), w, h, e))"

definition EmplaceBack_at ::
  "'a traits \<Rightarrow> nat \<Rightarrow> 'a \<Rightarrow> Vector_object \<Rightarrow> 'a heap \<times> env
     \<Rightarrow> (failure + nat) \<times> Vector_object \<times> 'a heap \<times> env" where
  "EmplaceBack_at T a arg w = (\<lambda>(h, e).
     if p_size w = p_capacity w then
       (case Allocate_at a (grown_capacity (vector_at h w)) (h, e) of
          (None, h1, e1) \<Rightarrow> (Inl (Raised Bad_alloc), w, h1, e1)
        | (Some temp_data, h1, e1) \<Rightarrow>
            (if \<not> p_size w \<le> grown_capacity (vector_at h w) then (Inl Assert_failed, w, h1, e1)
             else
               (case T_construct arg e1 of
                  (None, e2) \<Rightarrow>
                    (case Deallocate_at temp_data (h1, e2) of
                       (h2, e3) \<Rightarrow> (Inl (Raised Element_error), w, h2, e3))
                | (Some x, e2) \<Rightarrow>
                    (case slot_construct (block_at h1 temp_data) (p_size w) x of
                       None \<Rightarrow> (Inl Memory_error, w, h1, e2)
                     | Some tb \<Rightarrow>
                         (case move_or_copy_n T (block_at h1 (p_buffer w)) 0 (p_size w) tb 0 e2 of
                            (Some (Raised ex), src, tb1, e3) \<Rightarrow>
                              (case Deallocate_at temp_data
                                      (put_block temp_data tb1 (put_block (p_buffer w) src h1), e3) of
                                 (h2, e4) \<Rightarrow> (Inl (Raised ex), w, h2, e4))
                          | (Some f, src, tb1, e3) \<Rightarrow>
                              (Inl f, w, put_block temp_data tb1 (put_block (p_buffer w) src h1), e3)
                          | (None, src, tb1, e3) \<Rightarrow>
                              (case destroy_n src 0 (p_size w) of
                                 None \<Rightarrow>
                                   (Inl Memory_error, w,
                                    put_block temp_data tb1 (put_block (p_buffer w) src h1), e3)
                               | Some old \<Rightarrow>
                                   (case Deallocate_at (p_buffer w)
                                           (put_block temp_data tb1
                                              (put_block (p_buffer w) old h1), e3) of
                                      (h2, e4) \<Rightarrow>
                                        (Inr (p_size w),
                                         \<lparr>p_buffer = temp_data,
                                            p_capacity = grown_capacity (vector_at h w),
                                            p_size = p_size w + 1\<rparr>,
                                         h2, e4))))))))
     else
       (if \<not> p_size w \<le> p_capacity w then (Inl Assert_failed, w, h, e)
        else
          (case T_construct arg e of
             (None, e1) \<Rightarrow> (Inl (Raised Element_error), w, h, e1)
           | (Some x, e1) \<Rightarrow>
               (case slot_construct (block_at h (p_buffer w)) (p_size w) x of
                  None \<Rightarrow> (Inl Memory_error, w, h, e1)
                | Some b \<Rightarrow>
                    (Inr (p_size w), w\<lparr>p_size := p_size w + 1\<rparr>,
                     put_block (p_buffer w) b h, e1)))))"

text \<open>
  From \<open>h\<close> to \<open>h'\<close> no block that was allocated has changed or was given back, except
  the one at \<open>p\<close>.
\<close>

definition only_through :: "nat \<Rightarrow> 'a heap \<Rightarrow> 'a heap \<Rightarrow> bool" where
  "only_through p h h' \<longleftrightarrow> h' 0 = None \<and> (\<forall>c. c \<noteq> p \<and> h c \<noteq> None \<longrightarrow> h' c = h c)"

section \<open>Capacity\<close>

text \<open>Whatever the result of \<open>f\<close>, the vector has at least the capacity it had before.\<close>

definition capacity_not_decreased :: "('a Vector \<times> env \<Rightarrow> 'r \<times> 'a Vector \<times> env) \<Rightarrow> bool" where
  "capacity_not_decreased f \<longleftrightarrow> (\<forall>v e. Capacity v \<le> Capacity (fst (snd (f (v, e)))))"

section \<open>Facts about blocks\<close>

lemma list_all_take_nth:
  "n \<le> length xs \<Longrightarrow> list_all P (take n xs) \<longleftrightarrow> (\<forall>i<n. P (xs ! i))"
  by (auto simp: list_all_length)

lemma list_all_drop_nth:
  "list_all P (drop n xs) \<longleftrightarrow> (\<forall>i. n \<le> i \<and> i < length xs \<longrightarrow> P (xs ! i))"
proof
  assume a: "list_all P (drop n xs)"
  show "\<forall>i. n \<le> i \<and> i < length xs \<longrightarrow> P (xs ! i)"
  proof (intro allI impI)
    fix i assume i: "n \<le> i \<and> i < length xs"
    then have "i - n < length (drop n xs)" by auto
    with a have "P (drop n xs ! (i - n))" by (simp add: list_all_length)
    with i show "P (xs ! i)" by auto
  qed
next
  assume "\<forall>i. n \<le> i \<and> i < length xs \<longrightarrow> P (xs ! i)"
  then show "list_all P (drop n xs)" by (auto simp: list_all_length)
qed

lemma replicate_2: "replicate 2 x = [x, x]"
  by (simp add: numeral_2_eq_2)

lemma replicate_4: "replicate 4 x = [x, x, x, x]"
  by (simp add: numeral_eq_Suc)

lemma vector_ok_nth:
  "vector_ok v \<longleftrightarrow>
     Capacity v < size_t_range \<and> length (slots v) = Capacity v \<and> m_size v \<le> Capacity v \<and>
     (\<forall>i<m_size v. slots v ! i \<noteq> None) \<and>
     (\<forall>i. m_size v \<le> i \<and> i < Capacity v \<longrightarrow> slots v ! i = None)"
  by (auto simp: vector_ok_def Capacity_def slots_def list_all_take_nth list_all_drop_nth)

section \<open>Calls that may throw\<close>

lemmas T_defs = next_call_throws_def T_construct_def T_value_construct_def T_copy_construct_def
  T_move_construct_def T_copy_assign_def T_move_assign_def

lemmas slot_defs = slot_read_def slot_construct_def slot_assign_def destroy_at_def

lemmas raw_defs = RawMemory_default_def Allocate_def Deallocate_def RawMemory_ctor_def
  RawMemory_dtor_def RawMemory_plus_def RawMemory_index_def RawMemory_Swap_def

lemmas vec_defs = Capacity_def Size_def slots_def with_slots_def size_t_range_def
  grown_capacity_def move_or_copy_n_def MoveOrCopy_def swap_in_def

lemma only_faults_used_iff:
  "only_faults_used e e' \<longleftrightarrow>
     news e' = news e \<and> deletes e' = deletes e \<and> leaked e' = leaked e \<and>
     (\<exists>k. faults e' = drop k (faults e))"
proof -
  have "faults e' = drop (length (faults e) - length (faults e')) (faults e)"
    if "faults e' = drop k (faults e)" for k
  proof (cases "k \<le> length (faults e)")
    case True
    with that show ?thesis by simp
  next
    case False
    with that show ?thesis by simp
  qed
  then show ?thesis unfolding only_faults_used_def by blast
qed

lemma only_faults_used_refl [simp]: "only_faults_used e e"
  by (simp add: only_faults_used_def)

lemma only_faults_used_trans:
  "only_faults_used e e1 \<Longrightarrow> only_faults_used e1 e2 \<Longrightarrow> only_faults_used e e2"
  unfolding only_faults_used_iff
  by (metis drop_drop)

lemma only_faults_used_nil:
  "only_faults_used e e' \<Longrightarrow> faults e = [] \<Longrightarrow> faults e' = []"
  unfolding only_faults_used_iff by auto

lemma next_call_throws_cases:
  "next_call_throws e = (t, e') \<Longrightarrow> only_faults_used e e' \<and> (t \<longrightarrow> faults e \<noteq> [])"
  unfolding only_faults_used_iff next_call_throws_def
  by (cases "faults e") (auto intro: exI [of _ 0] exI [of _ 1])

lemma T_construct_cases:
  "T_construct x e = (r, e') \<Longrightarrow>
     only_faults_used e e' \<and> (r = Some (Val x) \<or> r = None \<and> faults e \<noteq> [])"
  unfolding T_construct_def
  by (auto split: prod.splits bool.splits dest: next_call_throws_cases)

lemma T_value_construct_cases:
  "T_value_construct T e = (r, e') \<Longrightarrow>
     only_faults_used e e' \<and> (r = Some (Val (value_initialized T)) \<or> r = None \<and> faults e \<noteq> [])"
  unfolding T_value_construct_def
  by (auto split: prod.splits bool.splits dest: next_call_throws_cases)

lemma T_copy_construct_cases:
  "T_copy_construct x e = (r, e') \<Longrightarrow>
     only_faults_used e e' \<and> (r = Some x \<or> r = None \<and> faults e \<noteq> [])"
  unfolding T_copy_construct_def
  by (auto split: prod.splits bool.splits dest: next_call_throws_cases)

lemma T_copy_assign_cases:
  "T_copy_assign x e = (r, e') \<Longrightarrow>
     only_faults_used e e' \<and> (r = Some x \<or> r = None \<and> faults e \<noteq> [])"
  unfolding T_copy_assign_def
  by (auto split: prod.splits bool.splits dest: next_call_throws_cases)

lemma T_move_construct_cases:
  "T_move_construct T x e = (r, e') \<Longrightarrow>
     only_faults_used e e' \<and>
     (r = Some (x, Moved_from) \<or>
      r = None \<and> faults e \<noteq> [] \<and> \<not> nothrow_move_constructible T)"
  unfolding T_move_construct_def
  by (auto split: prod.splits bool.splits if_splits dest: next_call_throws_cases)

lemma T_move_assign_cases:
  "T_move_assign T x e = (r, e') \<Longrightarrow>
     only_faults_used e e' \<and>
     (r = Some (x, Moved_from) \<or>
      r = None \<and> faults e \<noteq> [] \<and> \<not> nothrow_move_assignable T)"
  unfolding T_move_assign_def
  by (auto split: prod.splits bool.splits if_splits dest: next_call_throws_cases)

lemma destroy_n_live:
  "first + n \<le> length b \<Longrightarrow> (\<forall>i. first \<le> i \<and> i < first + n \<longrightarrow> b ! i \<noteq> None) \<Longrightarrow>
   \<exists>b'. destroy_n b first n = Some b' \<and> length b' = length b \<and>
        (\<forall>i<length b. b' ! i = (if first \<le> i \<and> i < first + n then None else b ! i))"
proof (induction n arbitrary: b first)
  case 0
  then show ?case by auto
next
  case (Suc n)
  let ?b1 = "b[first := None]"
  from Suc.prems have d: "destroy_at b first = Some ?b1"
    by (simp add: destroy_at_def)
  have "Suc first + n \<le> length ?b1" using Suc.prems by simp
  moreover have "\<forall>i. Suc first \<le> i \<and> i < Suc first + n \<longrightarrow> ?b1 ! i \<noteq> None"
    using Suc.prems by (simp add: nth_list_update)
  ultimately obtain b' where b': "destroy_n ?b1 (Suc first) n = Some b'"
    "length b' = length ?b1"
    "\<forall>i<length ?b1. b' ! i = (if Suc first \<le> i \<and> i < Suc first + n then None else ?b1 ! i)"
    using Suc.IH [of "Suc first" ?b1] by blast
  have "\<forall>i<length b. b' ! i = (if first \<le> i \<and> i < first + Suc n then None else b ! i)"
    using b'(3) Suc.prems(1) by (auto simp: nth_list_update)
  with d b' show ?case by simp
qed

lemma destroy_n_length:
  "destroy_n b first n = Some b' \<Longrightarrow> length b' = length b"
  by (induction n arbitrary: b first) (auto simp: destroy_at_def split: option.splits if_splits)

section \<open>The algorithms on blocks that satisfy their preconditions\<close>

lemma uninitialized_copy_n_spec:
  assumes "first + n \<le> length src"
    and "\<forall>i. first \<le> i \<and> i < first + n \<longrightarrow> src ! i \<noteq> None"
    and "d + n \<le> length dst"
    and "\<forall>i. d \<le> i \<and> i < d + n \<longrightarrow> dst ! i = None"
  shows "\<exists>r dst' e'. uninitialized_copy_n src first n dst d e = (r, dst', e') \<and>
           only_faults_used e e' \<and> length dst' = length dst \<and>
           (r = None \<and>
              (\<forall>j<length dst. dst' ! j =
                 (if d \<le> j \<and> j < d + n then src ! (first + (j - d)) else dst ! j))
            \<or> r = Some (Raised Element_error) \<and> dst' = dst \<and> faults e \<noteq> [])"
  using assms
proof (induction n arbitrary: first dst d e)
  case 0
  then show ?case by auto
next
  case (Suc n)
  from Suc.prems(1) have fl: "first < length src" by simp
  from Suc.prems(2) have "src ! first \<noteq> None" by auto
  then obtain x where x: "src ! first = Some x" by auto
  with fl have rd: "slot_read src first = Some x" by (simp add: slot_read_def)
  obtain r0 e1 where c: "T_copy_construct x e = (r0, e1)" by (cases "T_copy_construct x e")
  from T_copy_construct_cases [OF c]
  have q1: "only_faults_used e e1" and r0: "r0 = Some x \<or> r0 = None \<and> faults e \<noteq> []" by auto
  show ?case
  proof (cases r0)
    case None
    with rd c q1 r0 show ?thesis by simp
  next
    case (Some y)
    with r0 have y: "y = x" by simp
    let ?dst1 = "dst[d := Some x]"
    from Suc.prems have dn: "dst ! d = None" and dl: "d < length dst" by auto
    then have sc: "slot_construct dst d x = Some ?dst1" by (simp add: slot_construct_def)
    have p1: "Suc first + n \<le> length src" using Suc.prems by simp
    have p2: "\<forall>i. Suc first \<le> i \<and> i < Suc first + n \<longrightarrow> src ! i \<noteq> None"
      using Suc.prems by simp
    have p3: "Suc d + n \<le> length ?dst1" using Suc.prems by simp
    have p4: "\<forall>i. Suc d \<le> i \<and> i < Suc d + n \<longrightarrow> ?dst1 ! i = None"
      using Suc.prems by simp
    from Suc.IH [OF p1 p2 p3 p4, of e1]
    obtain r dst2 e2 where
      rec: "uninitialized_copy_n src (Suc first) n ?dst1 (Suc d) e1 = (r, dst2, e2)"
      and q2: "only_faults_used e1 e2" and l2: "length dst2 = length ?dst1"
      and alt: "r = None \<and>
              (\<forall>j<length ?dst1. dst2 ! j =
                 (if Suc d \<le> j \<and> j < Suc d + n then src ! (Suc first + (j - Suc d)) else ?dst1 ! j))
            \<or> r = Some (Raised Element_error) \<and> dst2 = ?dst1 \<and> faults e1 \<noteq> []"
      by blast
    have q: "only_faults_used e e2" using q1 q2 by (rule only_faults_used_trans)
    from alt show ?thesis
    proof
      assume a: "r = None \<and>
              (\<forall>j<length ?dst1. dst2 ! j =
                 (if Suc d \<le> j \<and> j < Suc d + n then src ! (Suc first + (j - Suc d)) else ?dst1 ! j))"
      have "\<forall>j<length dst. dst2 ! j =
                 (if d \<le> j \<and> j < d + Suc n then src ! (first + (j - d)) else dst ! j)"
      proof (intro allI impI)
        fix j assume j: "j < length dst"
        show "dst2 ! j = (if d \<le> j \<and> j < d + Suc n then src ! (first + (j - d)) else dst ! j)"
        proof (cases "j = d")
          case True
          with a j x show ?thesis by simp
        next
          case False
          then have "Suc first + (j - Suc d) = first + (j - d)" if "d \<le> j" using that by simp
          with a j False show ?thesis by (auto simp: nth_list_update)
        qed
      qed
      with a rd c Some y sc rec q l2 show ?thesis by simp
    next
      assume a: "r = Some (Raised Element_error) \<and> dst2 = ?dst1 \<and> faults e1 \<noteq> []"
      have da: "destroy_at ?dst1 d = Some dst"
        using dl dn by (simp add: destroy_at_def list_update_id [of dst d, unfolded dn])
      from q1 a have "faults e \<noteq> []" using only_faults_used_nil by blast
      with a rd c Some y sc rec q da show ?thesis by simp
    qed
  qed
qed

lemma uninitialized_move_n_spec:
  assumes "first + n \<le> length src"
    and "\<forall>i. first \<le> i \<and> i < first + n \<longrightarrow> src ! i \<noteq> None"
    and "d + n \<le> length dst"
    and "\<forall>i. d \<le> i \<and> i < d + n \<longrightarrow> dst ! i = None"
  shows "\<exists>r src' dst' e'. uninitialized_move_n T src first n dst d e = (r, src', dst', e') \<and>
           only_faults_used e e' \<and> length dst' = length dst \<and> length src' = length src \<and>
           (\<forall>i<length src. (src' ! i = None) = (src ! i = None)) \<and>
           (r = None \<and>
              (\<forall>j<length dst. dst' ! j =
                 (if d \<le> j \<and> j < d + n then src ! (first + (j - d)) else dst ! j)) \<and>
              (\<forall>i<length src. src' ! i =
                 (if first \<le> i \<and> i < first + n then Some Moved_from else src ! i))
            \<or> r = Some (Raised Element_error) \<and> dst' = dst \<and> faults e \<noteq> [] \<and>
              \<not> nothrow_move_constructible T)"
  using assms
proof (induction n arbitrary: first src dst d e)
  case 0
  then show ?case by auto
next
  case (Suc n)
  from Suc.prems(1) have fl: "first < length src" by simp
  from Suc.prems(2) have "src ! first \<noteq> None" by auto
  then obtain x where x: "src ! first = Some x" by auto
  with fl have rd: "slot_read src first = Some x" by (simp add: slot_read_def)
  obtain r0 e1 where c: "T_move_construct T x e = (r0, e1)" by (cases "T_move_construct T x e")
  from T_move_construct_cases [OF c]
  have q1: "only_faults_used e e1"
    and r0: "r0 = Some (x, Moved_from) \<or> r0 = None \<and> faults e \<noteq> [] \<and> \<not> nothrow_move_constructible T"
    by auto
  show ?case
  proof (cases r0)
    case None
    with rd c q1 r0 show ?thesis by simp
  next
    case (Some yx)
    with r0 have yx: "yx = (x, Moved_from)" by simp
    let ?dst1 = "dst[d := Some x]"
    let ?src1 = "src[first := Some Moved_from]"
    from Suc.prems have dn: "dst ! d = None" and dl: "d < length dst" by auto
    then have sc: "slot_construct dst d x = Some ?dst1" by (simp add: slot_construct_def)
    have p1: "Suc first + n \<le> length ?src1" using Suc.prems by simp
    have p2: "\<forall>i. Suc first \<le> i \<and> i < Suc first + n \<longrightarrow> ?src1 ! i \<noteq> None"
      using Suc.prems by simp
    have p3: "Suc d + n \<le> length ?dst1" using Suc.prems by simp
    have p4: "\<forall>i. Suc d \<le> i \<and> i < Suc d + n \<longrightarrow> ?dst1 ! i = None"
      using Suc.prems by simp
    from Suc.IH [OF p1 p2 p3 p4, of e1]
    obtain r src2 dst2 e2 where
      rec: "uninitialized_move_n T ?src1 (Suc first) n ?dst1 (Suc d) e1 = (r, src2, dst2, e2)"
      and q2: "only_faults_used e1 e2" and l2: "length dst2 = length ?dst1"
      and ls2: "length src2 = length ?src1"
      and lv2: "\<forall>i<length ?src1. (src2 ! i = None) = (?src1 ! i = None)"
      and alt: "r = None \<and>
              (\<forall>j<length ?dst1. dst2 ! j =
                 (if Suc d \<le> j \<and> j < Suc d + n then ?src1 ! (Suc first + (j - Suc d)) else ?dst1 ! j)) \<and>
              (\<forall>i<length ?src1. src2 ! i =
                 (if Suc first \<le> i \<and> i < Suc first + n then Some Moved_from else ?src1 ! i))
            \<or> r = Some (Raised Element_error) \<and> dst2 = ?dst1 \<and> faults e1 \<noteq> [] \<and>
              \<not> nothrow_move_constructible T"
      by blast
    have q: "only_faults_used e e2" using q1 q2 by (rule only_faults_used_trans)
    have lv: "\<forall>i<length src. (src2 ! i = None) = (src ! i = None)"
    proof (intro allI impI)
      fix i assume i: "i < length src"
      with lv2 have "(src2 ! i = None) = (?src1 ! i = None)" by simp
      with x i show "(src2 ! i = None) = (src ! i = None)"
        by (cases "i = first") simp_all
    qed
    from alt show ?thesis
    proof
      assume a: "r = None \<and>
              (\<forall>j<length ?dst1. dst2 ! j =
                 (if Suc d \<le> j \<and> j < Suc d + n then ?src1 ! (Suc first + (j - Suc d)) else ?dst1 ! j)) \<and>
              (\<forall>i<length ?src1. src2 ! i =
                 (if Suc first \<le> i \<and> i < Suc first + n then Some Moved_from else ?src1 ! i))"
      have A: "\<forall>j<length dst. dst2 ! j =
                 (if d \<le> j \<and> j < d + Suc n then src ! (first + (j - d)) else dst ! j)"
      proof (intro allI impI)
        fix j assume j: "j < length dst"
        show "dst2 ! j = (if d \<le> j \<and> j < d + Suc n then src ! (first + (j - d)) else dst ! j)"
        proof (cases "j = d")
          case True
          with a j x show ?thesis by simp
        next
          case False
          then have "Suc first + (j - Suc d) = first + (j - d)" if "d \<le> j" using that by simp
          with a j False show ?thesis by (auto simp: nth_list_update)
        qed
      qed
      have B: "\<forall>i<length src. src2 ! i =
                 (if first \<le> i \<and> i < first + Suc n then Some Moved_from else src ! i)"
        using a by (auto simp: nth_list_update)
      from a rd c Some yx sc rec q l2 ls2 lv A B show ?thesis by simp
    next
      assume a: "r = Some (Raised Element_error) \<and> dst2 = ?dst1 \<and> faults e1 \<noteq> [] \<and>
              \<not> nothrow_move_constructible T"
      have da: "destroy_at ?dst1 d = Some dst"
        using dl dn by (simp add: destroy_at_def list_update_id [of dst d, unfolded dn])
      from q1 a have "faults e \<noteq> []" using only_faults_used_nil by blast
      with a rd c Some yx sc rec q da ls2 lv show ?thesis by simp
    qed
  qed
qed

lemma move_loop_spec:
  assumes "Suc d + n \<le> length b"
    and "\<forall>i. d \<le> i \<and> i < Suc d + n \<longrightarrow> b ! i \<noteq> None"
  shows "\<exists>r b' e'. move_loop T b (Suc d) n d e = (r, b', e') \<and>
           only_faults_used e e' \<and> length b' = length b \<and>
           (r = None \<and>
              (\<forall>i<length b. b' ! i =
                 (if d \<le> i \<and> i < d + n then b ! Suc i
                  else if i = d + n \<and> 0 < n then Some Moved_from else b ! i))
            \<or> r = Some (Raised Element_error) \<and> faults e \<noteq> [] \<and>
              \<not> nothrow_move_assignable T)"
  using assms
proof (induction n arbitrary: b d e)
  case 0
  then show ?case by auto
next
  case (Suc n)
  from Suc.prems(1) have fl: "Suc d < length b" by simp
  from Suc.prems(2) have "b ! Suc d \<noteq> None" and ld: "b ! d \<noteq> None" by auto
  then obtain x where x: "b ! Suc d = Some x" by auto
  with fl have rd: "slot_read b (Suc d) = Some x" by (simp add: slot_read_def)
  obtain r0 e1 where c: "T_move_assign T x e = (r0, e1)" by (cases "T_move_assign T x e")
  from T_move_assign_cases [OF c]
  have q1: "only_faults_used e e1"
    and r0: "r0 = Some (x, Moved_from) \<or> r0 = None \<and> faults e \<noteq> [] \<and> \<not> nothrow_move_assignable T"
    by auto
  show ?case
  proof (cases r0)
    case None
    with rd c q1 r0 show ?thesis by simp
  next
    case (Some yx)
    with r0 have yx: "yx = (x, Moved_from)" by simp
    let ?b1 = "b[Suc d := Some Moved_from, d := Some x]"
    from fl ld have sa: "slot_assign (b[Suc d := Some Moved_from]) d x = Some ?b1"
      by (simp add: slot_assign_def)
    have p1: "Suc (Suc d) + n \<le> length ?b1" using Suc.prems by simp
    have p2: "\<forall>i. Suc d \<le> i \<and> i < Suc (Suc d) + n \<longrightarrow> ?b1 ! i \<noteq> None"
      using Suc.prems by (auto simp: nth_list_update)
    from Suc.IH [OF p1 p2, of e1]
    obtain r b2 e2 where
      rec: "move_loop T ?b1 (Suc (Suc d)) n (Suc d) e1 = (r, b2, e2)"
      and q2: "only_faults_used e1 e2" and l2: "length b2 = length ?b1"
      and alt: "r = None \<and>
              (\<forall>i<length ?b1. b2 ! i =
                 (if Suc d \<le> i \<and> i < Suc d + n then ?b1 ! Suc i
                  else if i = Suc d + n \<and> 0 < n then Some Moved_from else ?b1 ! i))
            \<or> r = Some (Raised Element_error) \<and> faults e1 \<noteq> [] \<and>
              \<not> nothrow_move_assignable T"
      by blast
    have q: "only_faults_used e e2" using q1 q2 by (rule only_faults_used_trans)
    from alt show ?thesis
    proof
      assume a: "r = None \<and>
              (\<forall>i<length ?b1. b2 ! i =
                 (if Suc d \<le> i \<and> i < Suc d + n then ?b1 ! Suc i
                  else if i = Suc d + n \<and> 0 < n then Some Moved_from else ?b1 ! i))"
      have A: "\<forall>i<length b. b2 ! i =
                 (if d \<le> i \<and> i < d + Suc n then b ! Suc i
                  else if i = d + Suc n \<and> 0 < Suc n then Some Moved_from else b ! i)"
      proof (intro allI impI)
        fix i assume i: "i < length b"
        with a have e: "b2 ! i =
                 (if Suc d \<le> i \<and> i < Suc d + n then ?b1 ! Suc i
                  else if i = Suc d + n \<and> 0 < n then Some Moved_from else ?b1 ! i)" by simp
        show "b2 ! i =
                 (if d \<le> i \<and> i < d + Suc n then b ! Suc i
                  else if i = d + Suc n \<and> 0 < Suc n then Some Moved_from else b ! i)"
          using e i fl x by (auto simp: nth_list_update)
      qed
      from a rd c Some yx sa rec q l2 A show ?thesis by simp
    next
      assume a: "r = Some (Raised Element_error) \<and> faults e1 \<noteq> [] \<and>
              \<not> nothrow_move_assignable T"
      from q1 a have "faults e \<noteq> []" using only_faults_used_nil by blast
      with a rd c Some yx sa rec q l2 show ?thesis by simp
    qed
  qed
qed

lemma move_backward_loop_spec:
  assumes "n \<le> last'" and "last' < length b"
    and "\<forall>i. last' - n \<le> i \<and> i \<le> last' \<longrightarrow> b ! i \<noteq> None"
  shows "\<exists>r b' e'. move_backward_loop T b last' n (Suc last') e = (r, b', e') \<and>
           only_faults_used e e' \<and> length b' = length b \<and>
           (r = None \<and>
              (\<forall>i<length b. b' ! i =
                 (if last' - n < i \<and> i \<le> last' then b ! (i - 1)
                  else if i = last' - n \<and> 0 < n then Some Moved_from else b ! i))
            \<or> r = Some (Raised Element_error) \<and> faults e \<noteq> [] \<and>
              \<not> nothrow_move_assignable T)"
  using assms
proof (induction n arbitrary: b last' e)
  case 0
  then show ?case by auto
next
  case (Suc n)
  from Suc.prems(1) obtain m where m: "last' = Suc m" by (cases last') auto
  from Suc.prems(2) m have fl: "m < length b" "Suc m < length b" by simp_all
  from Suc.prems(3) m have "b ! m \<noteq> None" and ld: "b ! Suc m \<noteq> None" using Suc.prems(1) by auto
  then obtain x where x: "b ! m = Some x" by auto
  with fl have rd: "slot_read b m = Some x" by (simp add: slot_read_def)
  obtain r0 e1 where c: "T_move_assign T x e = (r0, e1)" by (cases "T_move_assign T x e")
  from T_move_assign_cases [OF c]
  have q1: "only_faults_used e e1"
    and r0: "r0 = Some (x, Moved_from) \<or> r0 = None \<and> faults e \<noteq> [] \<and> \<not> nothrow_move_assignable T"
    by auto
  show ?case
  proof (cases r0)
    case None
    with rd c q1 r0 m show ?thesis by simp
  next
    case (Some yx)
    with r0 have yx: "yx = (x, Moved_from)" by simp
    let ?b1 = "b[m := Some Moved_from, Suc m := Some x]"
    from fl ld have sa: "slot_assign (b[m := Some Moved_from]) (Suc m) x = Some ?b1"
      by (simp add: slot_assign_def)
    have p1: "n \<le> m" using Suc.prems m by simp
    have p2: "m < length ?b1" using fl by simp
    have p3: "\<forall>i. m - n \<le> i \<and> i \<le> m \<longrightarrow> ?b1 ! i \<noteq> None"
      using Suc.prems m fl by (auto simp: nth_list_update)
    from Suc.IH [OF p1 p2 p3, of e1]
    obtain r b2 e2 where
      rec: "move_backward_loop T ?b1 m n (Suc m) e1 = (r, b2, e2)"
      and q2: "only_faults_used e1 e2" and l2: "length b2 = length ?b1"
      and alt: "r = None \<and>
              (\<forall>i<length ?b1. b2 ! i =
                 (if m - n < i \<and> i \<le> m then ?b1 ! (i - 1)
                  else if i = m - n \<and> 0 < n then Some Moved_from else ?b1 ! i))
            \<or> r = Some (Raised Element_error) \<and> faults e1 \<noteq> [] \<and>
              \<not> nothrow_move_assignable T"
      by blast
    have q: "only_faults_used e e2" using q1 q2 by (rule only_faults_used_trans)
    from alt show ?thesis
    proof
      assume a: "r = None \<and>
              (\<forall>i<length ?b1. b2 ! i =
                 (if m - n < i \<and> i \<le> m then ?b1 ! (i - 1)
                  else if i = m - n \<and> 0 < n then Some Moved_from else ?b1 ! i))"
      have A: "\<forall>i<length b. b2 ! i =
                 (if last' - Suc n < i \<and> i \<le> last' then b ! (i - 1)
                  else if i = last' - Suc n \<and> 0 < Suc n then Some Moved_from else b ! i)"
      proof (intro allI impI)
        fix i assume i: "i < length b"
        with a have e: "b2 ! i =
                 (if m - n < i \<and> i \<le> m then ?b1 ! (i - 1)
                  else if i = m - n \<and> 0 < n then Some Moved_from else ?b1 ! i)" by simp
        show "b2 ! i =
                 (if last' - Suc n < i \<and> i \<le> last' then b ! (i - 1)
                  else if i = last' - Suc n \<and> 0 < Suc n then Some Moved_from else b ! i)"
          using e i fl x m p1 by (auto simp: nth_list_update)
      qed
      from a rd c Some yx sa rec q l2 A m show ?thesis by simp
    next
      assume a: "r = Some (Raised Element_error) \<and> faults e1 \<noteq> [] \<and>
              \<not> nothrow_move_assignable T"
      from q1 a have "faults e \<noteq> []" using only_faults_used_nil by blast
      with a rd c Some yx sa rec q l2 m show ?thesis by simp
    qed
  qed
qed

lemma move_or_copy_n_spec:
  assumes "first + n \<le> length src"
    and "\<forall>i. first \<le> i \<and> i < first + n \<longrightarrow> src ! i \<noteq> None"
    and "d + n \<le> length dst"
    and "\<forall>i. d \<le> i \<and> i < d + n \<longrightarrow> dst ! i = None"
  shows "\<exists>r src' dst' e'. move_or_copy_n T src first n dst d e = (r, src', dst', e') \<and>
           only_faults_used e e' \<and> length dst' = length dst \<and> length src' = length src \<and>
           (\<forall>i<length src. (src' ! i = None) = (src ! i = None)) \<and>
           (r = None \<and>
              (\<forall>j<length dst. dst' ! j =
                 (if d \<le> j \<and> j < d + n then src ! (first + (j - d)) else dst ! j)) \<and>
              (\<forall>i<length src. \<not> (first \<le> i \<and> i < first + n) \<longrightarrow> src' ! i = src ! i)
            \<or> r = Some (Raised Element_error) \<and> dst' = dst \<and> faults e \<noteq> [] \<and>
              (nothrow_move_constructible T \<or> \<not> copy_constructible T \<or> src' = src))"
proof (cases "nothrow_move_constructible T \<or> \<not> copy_constructible T")
  case True
  from uninitialized_move_n_spec [OF assms, of T e]
  obtain r src' dst' e' where
    "uninitialized_move_n T src first n dst d e = (r, src', dst', e')"
    "only_faults_used e e'" "length dst' = length dst" "length src' = length src"
    "\<forall>i<length src. (src' ! i = None) = (src ! i = None)"
    "r = None \<and>
              (\<forall>j<length dst. dst' ! j =
                 (if d \<le> j \<and> j < d + n then src ! (first + (j - d)) else dst ! j)) \<and>
              (\<forall>i<length src. src' ! i =
                 (if first \<le> i \<and> i < first + n then Some Moved_from else src ! i))
            \<or> r = Some (Raised Element_error) \<and> dst' = dst \<and> faults e \<noteq> [] \<and>
              \<not> nothrow_move_constructible T"
    by blast
  with True show ?thesis unfolding move_or_copy_n_def by auto
next
  case False
  from uninitialized_copy_n_spec [OF assms, of e]
  obtain r dst' e' where
    "uninitialized_copy_n src first n dst d e = (r, dst', e')"
    "only_faults_used e e'" "length dst' = length dst"
    "r = None \<and>
              (\<forall>j<length dst. dst' ! j =
                 (if d \<le> j \<and> j < d + n then src ! (first + (j - d)) else dst ! j))
            \<or> r = Some (Raised Element_error) \<and> dst' = dst \<and> faults e \<noteq> []"
    by blast
  with False show ?thesis unfolding move_or_copy_n_def by auto
qed

lemma MoveOrCopy_spec:
  assumes "first + n \<le> length src"
    and "\<forall>i. first \<le> i \<and> i < first + n \<longrightarrow> src ! i \<noteq> None"
    and "d + n \<le> length dst"
    and "\<forall>i. d \<le> i \<and> i < d + n \<longrightarrow> dst ! i = None"
  shows "\<exists>r src' dst' e'. MoveOrCopy T src first n dst d e = (r, src', dst', e') \<and>
           only_faults_used e e' \<and> length dst' = length dst \<and> length src' = length src \<and>
           (r = None \<and>
              (\<forall>j<length dst. dst' ! j =
                 (if d \<le> j \<and> j < d + n then src ! (first + (j - d)) else dst ! j)) \<and>
              (\<forall>i<length src. src' ! i =
                 (if first \<le> i \<and> i < first + n then None else src ! i))
            \<or> r = Some (Raised Element_error) \<and> dst' = dst \<and> faults e \<noteq> [] \<and>
              (\<forall>i<length src. (src' ! i = None) = (src ! i = None)))"
proof -
  from move_or_copy_n_spec [OF assms, of T e]
  obtain r src1 dst' e' where
    m: "move_or_copy_n T src first n dst d e = (r, src1, dst', e')"
    and q: "only_faults_used e e'" and ld: "length dst' = length dst"
    and ls: "length src1 = length src"
    and lv: "\<forall>i<length src. (src1 ! i = None) = (src ! i = None)"
    and alt: "r = None \<and>
              (\<forall>j<length dst. dst' ! j =
                 (if d \<le> j \<and> j < d + n then src ! (first + (j - d)) else dst ! j)) \<and>
              (\<forall>i<length src. \<not> (first \<le> i \<and> i < first + n) \<longrightarrow> src1 ! i = src ! i)
            \<or> r = Some (Raised Element_error) \<and> dst' = dst \<and> faults e \<noteq> [] \<and>
              (nothrow_move_constructible T \<or> \<not> copy_constructible T \<or> src1 = src)"
    by blast
  from alt show ?thesis
  proof
    assume a: "r = None \<and>
              (\<forall>j<length dst. dst' ! j =
                 (if d \<le> j \<and> j < d + n then src ! (first + (j - d)) else dst ! j)) \<and>
              (\<forall>i<length src. \<not> (first \<le> i \<and> i < first + n) \<longrightarrow> src1 ! i = src ! i)"
    have p1: "first + n \<le> length src1" using assms(1) ls by simp
    have p2: "\<forall>i. first \<le> i \<and> i < first + n \<longrightarrow> src1 ! i \<noteq> None"
      using assms(1,2) lv by auto
    from destroy_n_live [OF p1 p2]
    obtain src2 where d: "destroy_n src1 first n = Some src2" "length src2 = length src1"
      "\<forall>i<length src1. src2 ! i = (if first \<le> i \<and> i < first + n then None else src1 ! i)"
      by blast
    have "\<forall>i<length src. src2 ! i = (if first \<le> i \<and> i < first + n then None else src ! i)"
      using d(3) a ls by auto
    with a m q ld ls d show ?thesis unfolding MoveOrCopy_def by simp
  next
    assume a: "r = Some (Raised Element_error) \<and> dst' = dst \<and> faults e \<noteq> [] \<and>
              (nothrow_move_constructible T \<or> \<not> copy_constructible T \<or> src1 = src)"
    with m q ld ls lv show ?thesis unfolding MoveOrCopy_def by simp
  qed
qed

lemma grown_capacity_bound: "grown_capacity v < size_t_range"
  by (simp add: grown_capacity_def size_t_range_def)

lemma grown_capacity_no_wrap:
  assumes "m_size v \<le> grown_capacity v"
  shows "grown_capacity v = max 1 (2 * m_size v)" and "m_size v < grown_capacity v"
proof -
  let ?s = "m_size v"
  let ?R = "size_t_range"
  have R: "0 < ?R" by (simp add: size_t_range_def)
  show "grown_capacity v = max 1 (2 * m_size v)"
  proof (cases "?s = 0")
    case True
    then show ?thesis by (simp add: grown_capacity_def)
  next
    case False
    have "?s * 2 < ?R"
    proof (rule ccontr)
      assume "\<not> ?s * 2 < ?R"
      then have ge: "?R \<le> ?s * 2" by simp
      have "(?s * 2) mod ?R < ?s"
      proof (cases "?s < ?R")
        case True
        with ge have "(?s * 2) mod ?R = ?s * 2 - ?R"
          by (simp add: mod_if le_mod_geq)
        with True ge show ?thesis by simp
      next
        case False
        have "(?s * 2) mod ?R < ?R" using R by simp
        with False show ?thesis by simp
      qed
      with assms \<open>?s \<noteq> 0\<close> show False by (simp add: grown_capacity_def)
    qed
    with False show ?thesis by (simp add: grown_capacity_def max_def)
  qed
  then show "m_size v < grown_capacity v" by (simp add: max_def split: if_splits)
qed

lemma grown_capacity_small:
  "m_size v < 2 ^ 63 \<Longrightarrow> grown_capacity v = max 1 (2 * m_size v)"
  by (simp add: grown_capacity_def size_t_range_def max_def)

lemma slots_simps [simp]:
  "slots (with_slots v b) = b"
  "slots (v\<lparr>m_size := n\<rparr>) = slots v"
  "m_size (with_slots v b) = m_size v"
  "Capacity (with_slots v b) = Capacity v"
  "Capacity (v\<lparr>m_size := n\<rparr>) = Capacity v"
  "with_slots v (slots v) = v"
  by (simp_all add: slots_def with_slots_def Capacity_def)

lemma swap_in_eq:
  "swap_in v old temp tb e =
     (v\<lparr>m_data := (m_data v)\<lparr>m_buffer := tb, m_capacity := m_capacity temp\<rparr>\<rparr>, Deallocate old e)"
  by (simp add: swap_in_def RawMemory_Swap_def RawMemory_dtor_def)

lemma Deallocate_raw:
  "\<forall>i<length b. b ! i = None \<Longrightarrow>
   Deallocate b e = e\<lparr>deletes := deletes e + (if b = [] then 0 else 1)\<rparr>"
proof -
  assume "\<forall>i<length b. b ! i = None"
  then have "filter (\<lambda>s. s \<noteq> None) b = []"
    by (auto simp: filter_empty_conv in_set_conv_nth)
  then show ?thesis by (simp add: Deallocate_def)
qed

lemma elements_length: "m_size v \<le> length (slots v) \<Longrightarrow> length (elements v) = m_size v"
  by (simp add: elements_def slots_def)

lemma elements_nth:
  "i < m_size v \<Longrightarrow> m_size v \<le> length (slots v) \<Longrightarrow> elements v ! i = the (slots v ! i)"
  by (simp add: elements_def slots_def)

lemma vector_okI:
  "Capacity v < size_t_range \<Longrightarrow> length (slots v) = Capacity v \<Longrightarrow> m_size v \<le> Capacity v \<Longrightarrow>
   (\<And>i. i < m_size v \<Longrightarrow> slots v ! i \<noteq> None) \<Longrightarrow>
   (\<And>i. m_size v \<le> i \<Longrightarrow> i < Capacity v \<Longrightarrow> slots v ! i = None) \<Longrightarrow> vector_ok v"
  by (simp add: vector_ok_nth)

section \<open>The member functions on vectors that satisfy the invariant\<close>

lemma elements_eqI:
  assumes "m_size v = length xs" and "length xs \<le> length (slots v)"
    and "\<And>i. i < length xs \<Longrightarrow> slots v ! i = Some (xs ! i)"
  shows "elements v = xs"
proof (rule nth_equalityI)
  show "length (elements v) = length xs" using assms(1,2) by (simp add: elements_length)
next
  fix i assume "i < length (elements v)"
  then have i: "i < length xs" using assms(1,2) by (simp add: elements_length)
  with assms show "elements v ! i = xs ! i" by (simp add: elements_nth)
qed

lemma slots_elements:
  "vector_ok v \<Longrightarrow> i < m_size v \<Longrightarrow> slots v ! i = Some (elements v ! i)"
  by (auto simp: vector_ok_nth elements_nth)

lemma vector_ok_length_elements: "vector_ok v \<Longrightarrow> length (elements v) = m_size v"
  by (simp add: vector_ok_nth elements_length)

lemma RawMemory_ctor_cases:
  "RawMemory_ctor n e = (r, e') \<Longrightarrow>
     (faults e = [] \<longrightarrow> faults e' = []) \<and> leaked e' = leaked e \<and> deletes e' = deletes e \<and>
     (r = None \<and> faults e \<noteq> [] \<and> news e' = news e \<or>
      r = Some \<lparr>m_buffer = replicate n None, m_capacity = n\<rparr> \<and>
        news e' = news e + (if n = 0 then 0 else 1))"
  unfolding RawMemory_ctor_def Allocate_def next_call_throws_def
  by (cases "faults e") (auto split: if_splits bool.splits)

lemma EmplaceBack_in_place_cases:
  assumes ok: "vector_ok v" and lt: "m_size v < Capacity v"
  shows "\<exists>e'. only_faults_used e e' \<and>
     (EmplaceBack T x (v, e) = (Inl (Raised Element_error), v, e') \<and> faults e \<noteq> []
      \<or> (\<exists>v'. EmplaceBack T x (v, e) = (Inr (m_size v), v', e') \<and> vector_ok v' \<and>
            Capacity v' = Capacity v \<and> m_size v' = m_size v + 1 \<and>
            slots v' = (slots v)[m_size v := Some (Val x)] \<and>
            elements v' = elements v @ [Val x]))"
proof -
  from ok have len: "length (slots v) = Capacity v" and cap: "Capacity v < size_t_range"
    and live: "\<forall>i<m_size v. slots v ! i \<noteq> None"
    and raw: "\<forall>i. m_size v \<le> i \<and> i < Capacity v \<longrightarrow> slots v ! i = None"
    by (simp_all add: vector_ok_nth)
  have ne: "m_size v \<noteq> Capacity v" using lt by simp
  have rp: "RawMemory_plus (m_data v) (m_size v) = Some (m_size v)"
    using lt by (simp add: RawMemory_plus_def Capacity_def)
  obtain r e' where tc: "T_construct x e = (r, e')" by (cases "T_construct x e")
  from T_construct_cases [OF tc]
  have q: "only_faults_used e e'" and r: "r = Some (Val x) \<or> r = None \<and> faults e \<noteq> []"
    by auto
  show ?thesis
  proof (cases r)
    case None
    with r ne rp tc q show ?thesis by (auto simp: EmplaceBack_def)
  next
    case (Some y)
    with r have y: "y = Val x" by simp
    let ?b = "(slots v)[m_size v := Some (Val x)]"
    let ?v' = "(with_slots v ?b)\<lparr>m_size := m_size v + 1\<rparr>"
    have sc: "slot_construct (slots v) (m_size v) (Val x) = Some ?b"
      using lt len raw by (simp add: slot_construct_def)
    have eb: "EmplaceBack T x (v, e) = (Inr (m_size v), ?v', e')"
      using ne rp tc Some y sc by (simp add: EmplaceBack_def)
    have ok': "vector_ok ?v'"
    proof (rule vector_okI)
      show "Capacity ?v' < size_t_range" using cap by simp
      show "length (slots ?v') = Capacity ?v'" using len by simp
      show "m_size ?v' \<le> Capacity ?v'" using lt by simp
    next
      fix i assume "i < m_size ?v'"
      then show "slots ?v' ! i \<noteq> None"
        using live lt len by (cases "i = m_size v") simp_all
    next
      fix i assume "m_size ?v' \<le> i" "i < Capacity ?v'"
      then show "slots ?v' ! i = None" using raw by simp
    qed
    have el: "elements ?v' = elements v @ [Val x]"
    proof (rule elements_eqI)
      show "m_size ?v' = length (elements v @ [Val x])"
        using ok by (simp add: vector_ok_length_elements)
      show "length (elements v @ [Val x]) \<le> length (slots ?v')"
        using ok lt len by (simp add: vector_ok_length_elements)
    next
      fix i assume "i < length (elements v @ [Val x])"
      then have i: "i \<le> m_size v" using ok by (simp add: vector_ok_length_elements)
      show "slots ?v' ! i = Some ((elements v @ [Val x]) ! i)"
      proof (cases "i = m_size v")
        case True
        then show ?thesis using ok lt len by (simp add: vector_ok_length_elements nth_append)
      next
        case False
        with i have "i < m_size v" by simp
        then show ?thesis using ok slots_elements [OF ok, of i]
          by (simp add: vector_ok_length_elements nth_append)
      qed
    qed
    from eb ok' el q show ?thesis by auto
  qed
qed

lemma replicate_update_nth:
  "j < n \<Longrightarrow> (replicate n None)[i := y] ! j = (if j = i then y else None)"
  by (simp add: nth_list_update)

lemma EmplaceBack_grow_cases:
  fixes v :: "'a Vector"
  assumes ok: "vector_ok v" and full: "m_size v = Capacity v"
  shows "\<exists>res v' e'. EmplaceBack T x (v, e) = (res, v', e') \<and>
    (faults e = [] \<longrightarrow> faults e' = []) \<and>
    (case res of
       Inr t \<Rightarrow> t = m_size v \<and> vector_ok v' \<and> Capacity v' = max 1 (2 * Capacity v) \<and>
                m_size v' = m_size v + 1 \<and> elements v' = elements v @ [Val x]
     | Inl f \<Rightarrow> f = Assert_failed \<and> \<not> m_size v < 2 ^ 63 \<or>
                (f = Raised Bad_alloc \<or> f = Raised Element_error) \<and> faults e \<noteq> [])"
proof -
  let ?s = "m_size v"
  let ?g = "grown_capacity v"
  from ok have len: "length (slots v) = Capacity v"
    and live: "\<forall>i<?s. slots v ! i \<noteq> None"
    by (simp_all add: vector_ok_nth)
  obtain r0 :: "'a RawMemory option" and e1 where rc: "RawMemory_ctor ?g e = (r0, e1)"
    by (cases "RawMemory_ctor ?g e :: 'a RawMemory option \<times> env")
  from RawMemory_ctor_cases [OF rc]
  have f1: "faults e = [] \<longrightarrow> faults e1 = []"
    and r0: "r0 = None \<and> faults e \<noteq> [] \<or> r0 = Some \<lparr>m_buffer = replicate ?g None, m_capacity = ?g\<rparr>"
    by auto
  show ?thesis
  proof (cases r0)
    case None
    with r0 rc full f1 show ?thesis by (simp add: EmplaceBack_def)
  next
    case (Some temp)
    with r0 have temp: "temp = \<lparr>m_buffer = replicate ?g None, m_capacity = ?g\<rparr>" by simp
    show ?thesis
    proof (cases "?s \<le> ?g")
      case False
      then have rp: "RawMemory_plus temp ?s = None" by (simp add: RawMemory_plus_def temp)
      have "\<not> ?s < 2 ^ 63"
      proof
        assume "?s < 2 ^ 63"
        then have "?g = max 1 (2 * ?s)" by (rule grown_capacity_small)
        with False show False by (simp add: max_def split: if_splits)
      qed
      with rc Some rp full f1 show ?thesis by (simp add: EmplaceBack_def)
    next
      case True
      then have rp: "RawMemory_plus temp ?s = Some ?s" by (simp add: RawMemory_plus_def temp)
      from grown_capacity_no_wrap [OF True]
      have g: "?g = max 1 (2 * ?s)" and sg: "?s < ?g" by simp_all
      obtain r1 e2 where tc: "T_construct x e1 = (r1, e2)" by (cases "T_construct x e1")
      from T_construct_cases [OF tc]
      have q2: "only_faults_used e1 e2" and r1: "r1 = Some (Val x) \<or> r1 = None \<and> faults e1 \<noteq> []"
        by auto
      from q2 f1 have f2: "faults e = [] \<longrightarrow> faults e2 = []"
        using only_faults_used_nil by blast
      show ?thesis
      proof (cases r1)
        case None
        with r1 f1 have "faults e \<noteq> []" by auto
        with rc Some rp tc None full f2 show ?thesis
          by (simp add: EmplaceBack_def RawMemory_dtor_def Deallocate_def)
      next
        case (Some y)
        with r1 have y: "y = Val x" by simp
        let ?tb = "(replicate ?g None)[?s := Some (Val x)]"
        have sc: "slot_construct (m_buffer temp) ?s (Val x) = Some ?tb"
          using sg by (simp add: slot_construct_def temp)
        have p1: "0 + ?s \<le> length (slots v)" using len full by simp
        have p2: "\<forall>i. 0 \<le> i \<and> i < 0 + ?s \<longrightarrow> slots v ! i \<noteq> None" using live by simp
        have p3: "0 + ?s \<le> length ?tb" using sg by simp
        have p4: "\<forall>i. 0 \<le> i \<and> i < 0 + ?s \<longrightarrow> ?tb ! i = None" using sg by simp
        from move_or_copy_n_spec [OF p1 p2 p3 p4, of T e2]
        obtain r src' dst' e3 where
          mc: "move_or_copy_n T (slots v) 0 ?s ?tb 0 e2 = (r, src', dst', e3)"
          and q3: "only_faults_used e2 e3" and ld: "length dst' = length ?tb"
          and ls: "length src' = length (slots v)"
          and lv: "\<forall>i<length (slots v). (src' ! i = None) = (slots v ! i = None)"
          and alt: "r = None \<and>
              (\<forall>j<length ?tb. dst' ! j =
                 (if 0 \<le> j \<and> j < 0 + ?s then slots v ! (0 + (j - 0)) else ?tb ! j)) \<and>
              (\<forall>i<length (slots v). \<not> (0 \<le> i \<and> i < 0 + ?s) \<longrightarrow> src' ! i = slots v ! i)
            \<or> r = Some (Raised Element_error) \<and> dst' = ?tb \<and> faults e2 \<noteq> [] \<and>
              (nothrow_move_constructible T \<or> \<not> copy_constructible T \<or> src' = slots v)"
          by blast
        from q3 f2 have f3: "faults e = [] \<longrightarrow> faults e3 = []"
          using only_faults_used_nil by blast
        from alt show ?thesis
        proof
          assume a: "r = Some (Raised Element_error) \<and> dst' = ?tb \<and> faults e2 \<noteq> [] \<and>
              (nothrow_move_constructible T \<or> \<not> copy_constructible T \<or> src' = slots v)"
          with f2 have "faults e \<noteq> []" by auto
          with a rc \<open>r0 = Some temp\<close> rp tc Some y sc mc full f3 show ?thesis
            by (simp add: EmplaceBack_def Deallocate_def)
        next
          assume a: "r = None \<and>
              (\<forall>j<length ?tb. dst' ! j =
                 (if 0 \<le> j \<and> j < 0 + ?s then slots v ! (0 + (j - 0)) else ?tb ! j)) \<and>
              (\<forall>i<length (slots v). \<not> (0 \<le> i \<and> i < 0 + ?s) \<longrightarrow> src' ! i = slots v ! i)"
          have d1: "0 + ?s \<le> length src'" using ls len full by simp
          have d2: "\<forall>i. 0 \<le> i \<and> i < 0 + ?s \<longrightarrow> src' ! i \<noteq> None"
            using lv live len full by simp
          from destroy_n_live [OF d1 d2]
          obtain old where dn: "destroy_n src' 0 ?s = Some old" by blast
          let ?v' = "(v\<lparr>m_data := (m_data v)\<lparr>m_buffer := dst', m_capacity := m_capacity temp\<rparr>\<rparr>)
                       \<lparr>m_size := ?s + 1\<rparr>"
          have eb: "EmplaceBack T x (v, e) = (Inr ?s, ?v', Deallocate old e3)"
            using a rc \<open>r0 = Some temp\<close> rp tc Some y sc mc dn full
            by (simp add: EmplaceBack_def swap_in_eq)
          have sl: "slots ?v' = dst'" and cp: "Capacity ?v' = ?g" and sz: "m_size ?v' = ?s + 1"
            by (simp_all add: slots_def Capacity_def temp)
          have nth: "\<And>j. j < ?g \<Longrightarrow> dst' ! j =
                 (if j < ?s then slots v ! j else if j = ?s then Some (Val x) else None)"
            using a by (simp add: nth_list_update)
          have ok': "vector_ok ?v'"
          proof (rule vector_okI)
            show "Capacity ?v' < size_t_range" unfolding cp by (rule grown_capacity_bound)
            show "length (slots ?v') = Capacity ?v'" unfolding sl cp using ld by simp
            show "m_size ?v' \<le> Capacity ?v'" unfolding sz cp using sg by simp
          next
            fix i assume "i < m_size ?v'"
            then have "i < ?s + 1" unfolding sz .
            then show "slots ?v' ! i \<noteq> None" unfolding sl using nth [of i] sg live by auto
          next
            fix i assume "m_size ?v' \<le> i" "i < Capacity ?v'"
            then have "?s + 1 \<le> i" "i < ?g" unfolding sz cp .
            then show "slots ?v' ! i = None" unfolding sl using nth [of i] by simp
          qed
          have el: "elements ?v' = elements v @ [Val x]"
          proof (rule elements_eqI)
            show "m_size ?v' = length (elements v @ [Val x])"
              using ok by (simp add: vector_ok_length_elements)
            show "length (elements v @ [Val x]) \<le> length (slots ?v')"
              unfolding sl using ok sg ld by (simp add: vector_ok_length_elements)
          next
            fix i assume "i < length (elements v @ [Val x])"
            then have i: "i \<le> ?s" using ok by (simp add: vector_ok_length_elements)
            show "slots ?v' ! i = Some ((elements v @ [Val x]) ! i)"
            proof (cases "i = ?s")
              case True
              then show ?thesis unfolding sl using nth [of i] sg ok
                by (simp add: vector_ok_length_elements nth_append)
            next
              case False
              with i have "i < ?s" by simp
              then show ?thesis unfolding sl using nth [of i] sg slots_elements [OF ok, of i] ok
                by (simp add: vector_ok_length_elements nth_append)
            qed
          qed
          have fl: "faults e = [] \<longrightarrow> faults (Deallocate old e3) = []"
            using f3 by (simp add: Deallocate_def)
          from eb ok' el fl g full cp sz show ?thesis by simp
        qed
      qed
    qed
  qed
qed

lemma Erase_cases:
  assumes ok: "vector_ok v" and p: "p < m_size v"
  shows "\<exists>res v' e'. Erase T p (v, e) = (res, v', e') \<and> only_faults_used e e' \<and>
    (case res of
       Inr j \<Rightarrow> j = p \<and> vector_ok v' \<and> Capacity v' = Capacity v \<and>
                m_size v' = m_size v - 1 \<and>
                elements v' = take p (elements v) @ drop (Suc p) (elements v)
     | Inl f \<Rightarrow> f = Raised Element_error \<and> faults e \<noteq> [] \<and> \<not> nothrow_move_assignable T)"
proof -
  let ?s = "m_size v"
  let ?b = "slots v"
  let ?n = "?s - Suc p"
  from ok have len: "length ?b = Capacity v" and cap: "Capacity v < size_t_range"
    and le: "?s \<le> Capacity v"
    and live: "\<forall>i<?s. ?b ! i \<noteq> None"
    and raw: "\<forall>i. ?s \<le> i \<and> i < Capacity v \<longrightarrow> ?b ! i = None"
    by (simp_all add: vector_ok_nth)
  have sm: "std_move T ?b (p + 1) ?s p e = move_loop T ?b (Suc p) ?n p e"
    using p by (simp add: std_move_def)
  have p1: "Suc p + ?n \<le> length ?b" using p le len by simp
  have p2: "\<forall>i. p \<le> i \<and> i < Suc p + ?n \<longrightarrow> ?b ! i \<noteq> None" using p live by simp
  from move_loop_spec [OF p1 p2, of T e]
  obtain r b' e' where
    ml: "move_loop T ?b (Suc p) ?n p e = (r, b', e')"
    and q: "only_faults_used e e'" and l': "length b' = length ?b"
    and alt: "r = None \<and>
              (\<forall>i<length ?b. b' ! i =
                 (if p \<le> i \<and> i < p + ?n then ?b ! Suc i
                  else if i = p + ?n \<and> 0 < ?n then Some Moved_from else ?b ! i))
            \<or> r = Some (Raised Element_error) \<and> faults e \<noteq> [] \<and>
              \<not> nothrow_move_assignable T"
    by blast
  from alt show ?thesis
  proof
    assume a: "r = Some (Raised Element_error) \<and> faults e \<noteq> [] \<and>
              \<not> nothrow_move_assignable T"
    with p sm ml q show ?thesis by (simp add: Erase_def)
  next
    assume a: "r = None \<and>
              (\<forall>i<length ?b. b' ! i =
                 (if p \<le> i \<and> i < p + ?n then ?b ! Suc i
                  else if i = p + ?n \<and> 0 < ?n then Some Moved_from else ?b ! i))"
    have pn: "p + ?n = ?s - 1" using p by simp
    have nth: "\<And>i. i < Capacity v \<Longrightarrow> b' ! i =
                 (if p \<le> i \<and> i < ?s - 1 then ?b ! Suc i
                  else if i = ?s - 1 \<and> Suc p < ?s then Some Moved_from else ?b ! i)"
      using a len pn by auto
    have lastlive: "b' ! (?s - 1) \<noteq> None"
      using nth [of "?s - 1"] p le live by auto
    let ?b'' = "b'[?s - 1 := None]"
    let ?v' = "(with_slots (with_slots v b') ?b'')\<lparr>m_size := ?s - 1\<rparr>"
    have da: "destroy_at b' (?s - 1) = Some ?b''"
      using lastlive p le len l' by (simp add: destroy_at_def)
    have pb: "PopBack (with_slots v b', e') = (Inr (), ?v', e')"
      using p da by (simp add: PopBack_def)
    have er: "Erase T p (v, e) = (Inr p, ?v', e')"
      using p sm ml a pb by (simp add: Erase_def)
    have sl: "slots ?v' = ?b''" and cp: "Capacity ?v' = Capacity v" and sz: "m_size ?v' = ?s - 1"
      by simp_all
    have ok': "vector_ok ?v'"
    proof (rule vector_okI)
      show "Capacity ?v' < size_t_range" using cap by simp
      show "length (slots ?v') = Capacity ?v'" using len l' by simp
      show "m_size ?v' \<le> Capacity ?v'" using le by simp
    next
      fix i assume "i < m_size ?v'"
      then have i: "i < ?s - 1" by simp
      then have "?b'' ! i = b' ! i" by simp
      also have "\<dots> \<noteq> None" using nth [of i] i le live by auto
      finally show "slots ?v' ! i \<noteq> None" by simp
    next
      fix i assume "m_size ?v' \<le> i" "i < Capacity ?v'"
      then have i: "?s - 1 \<le> i" "i < Capacity v" by simp_all
      show "slots ?v' ! i = None"
      proof (cases "i = ?s - 1")
        case True
        then show ?thesis using i l' len by simp
      next
        case False
        with i p have "?s \<le> i" by simp
        then show ?thesis using nth [of i] i raw False by simp
      qed
    qed
    have el: "elements ?v' = take p (elements v) @ drop (Suc p) (elements v)"
    proof (rule elements_eqI)
      show "m_size ?v' = length (take p (elements v) @ drop (Suc p) (elements v))"
        using ok p by (simp add: vector_ok_length_elements)
      show "length (take p (elements v) @ drop (Suc p) (elements v)) \<le> length (slots ?v')"
        using ok p le len l' by (simp add: vector_ok_length_elements)
    next
      fix i assume "i < length (take p (elements v) @ drop (Suc p) (elements v))"
      then have i: "i < ?s - 1" using ok p by (simp add: vector_ok_length_elements)
      then have e1: "slots ?v' ! i = b' ! i" by simp
      show "slots ?v' ! i = Some ((take p (elements v) @ drop (Suc p) (elements v)) ! i)"
      proof (cases "i < p")
        case True
        then show ?thesis unfolding e1
          using nth [of i] i le slots_elements [OF ok, of i] ok p
          by (simp add: vector_ok_length_elements nth_append)
      next
        case False
        then have "(take p (elements v) @ drop (Suc p) (elements v)) ! i = elements v ! Suc i"
          using ok p i by (simp add: vector_ok_length_elements nth_append min_def)
        then show ?thesis unfolding e1
          using nth [of i] i le slots_elements [OF ok, of "Suc i"] False by simp
      qed
    qed
    from er q ok' el show ?thesis by simp
  qed
qed

lemma slot_construct_length: "slot_construct b i x = Some b' \<Longrightarrow> length b' = length b \<and> i < length b"
  by (auto simp: slot_construct_def split: if_splits)

lemma slot_assign_length: "slot_assign b i x = Some b' \<Longrightarrow> length b' = length b"
  by (auto simp: slot_assign_def split: if_splits)

lemma destroy_at_length: "destroy_at b i = Some b' \<Longrightarrow> length b' = length b"
  by (auto simp: destroy_at_def split: if_splits)

lemma uninitialized_copy_n_returns:
  "uninitialized_copy_n src first n dst d e = (None, dst', e') \<Longrightarrow>
     length dst' = length dst \<and> (n = 0 \<or> d + n \<le> length dst)"
proof (induction n arbitrary: first dst d e)
  case 0
  then show ?case by simp
next
  case (Suc n)
  from Suc.prems obtain x e1 dst1 where
    sc: "slot_construct dst d x = Some dst1"
    and rec: "uninitialized_copy_n src (Suc first) n dst1 (Suc d) e1 = (None, dst', e')"
    by (auto split: option.splits prod.splits failure.splits exn.splits)
  from slot_construct_length [OF sc] have l1: "length dst1 = length dst" and d: "d < length dst"
    by simp_all
  from Suc.IH [OF rec] l1 d show ?case by auto
qed

lemma uninitialized_move_n_returns:
  "uninitialized_move_n T src first n dst d e = (None, src', dst', e') \<Longrightarrow>
     length dst' = length dst \<and> length src' = length src \<and> (n = 0 \<or> d + n \<le> length dst)"
proof (induction n arbitrary: first src dst d e)
  case 0
  then show ?case by simp
next
  case (Suc n)
  from Suc.prems obtain x x' e1 dst1 where
    sc: "slot_construct dst d x = Some dst1"
    and rec: "uninitialized_move_n T (src[first := Some x']) (Suc first) n dst1 (Suc d) e1
                = (None, src', dst', e')"
    by (auto split: option.splits prod.splits failure.splits exn.splits)
  from slot_construct_length [OF sc] have l1: "length dst1 = length dst" and d: "d < length dst"
    by simp_all
  from Suc.IH [OF rec] l1 d show ?case by auto
qed

lemma move_or_copy_n_returns:
  "move_or_copy_n T src first n dst d e = (None, src', dst', e') \<Longrightarrow>
     length dst' = length dst \<and> length src' = length src \<and> (n = 0 \<or> d + n \<le> length dst)"
  unfolding move_or_copy_n_def
  by (auto split: if_splits prod.splits
      dest: uninitialized_move_n_returns uninitialized_copy_n_returns)

lemma MoveOrCopy_returns:
  assumes "MoveOrCopy T src first n dst d e = (None, src', dst', e')"
  shows "length dst' = length dst \<and> length src' = length src \<and> (n = 0 \<or> d + n \<le> length dst)"
proof -
  from assms obtain src1 where
    m: "move_or_copy_n T src first n dst d e = (None, src1, dst', e')"
    and dn: "destroy_n src1 first n = Some src'"
    unfolding MoveOrCopy_def by (auto split: prod.splits option.splits)
  from move_or_copy_n_returns [OF m] destroy_n_length [OF dn] show ?thesis by simp
qed

lemma Emplace_middle_grow_cases:
  fixes v :: "'a Vector"
  assumes ok: "vector_ok v" and p: "p < m_size v" and full: "m_size v = Capacity v"
    and nowrap: "m_size v \<le> grown_capacity v"
  shows "\<exists>res v' e'. Emplace T p x (v, e) = (res, v', e') \<and>
    (faults e = [] \<longrightarrow> faults e' = []) \<and>
    (case res of
       Inr t \<Rightarrow> t = p \<and> vector_ok v' \<and> Capacity v' = max 1 (2 * Capacity v) \<and>
                m_size v' = m_size v + 1 \<and>
                elements v' = take p (elements v) @ [Val x] @ drop p (elements v)
     | Inl f \<Rightarrow> (f = Raised Bad_alloc \<or> f = Raised Element_error) \<and> faults e \<noteq> [])"
proof -
  let ?s = "m_size v"
  let ?g = "grown_capacity v"
  let ?b = "slots v"
  from ok have len: "length ?b = Capacity v"
    and live: "\<forall>i<?s. ?b ! i \<noteq> None"
    by (simp_all add: vector_ok_nth)
  from grown_capacity_no_wrap [OF nowrap]
  have g: "?g = max 1 (2 * ?s)" and sg: "?s < ?g" by simp_all
  have br: "\<not> \<not> p \<le> ?s" "p \<noteq> ?s" using p by simp_all
  obtain r0 :: "'a RawMemory option" and e1 where rc: "RawMemory_ctor ?g e = (r0, e1)"
    by (cases "RawMemory_ctor ?g e :: 'a RawMemory option \<times> env")
  from RawMemory_ctor_cases [OF rc]
  have f1: "faults e = [] \<longrightarrow> faults e1 = []"
    and r0: "r0 = None \<and> faults e \<noteq> [] \<or> r0 = Some \<lparr>m_buffer = replicate ?g None, m_capacity = ?g\<rparr>"
    by auto
  show ?thesis
  proof (cases r0)
    case None
    with r0 rc full f1 br show ?thesis by (simp add: Emplace_def)
  next
    case (Some temp)
    note r0_some = this
    with r0 have temp: "temp = \<lparr>m_buffer = replicate ?g None, m_capacity = ?g\<rparr>" by simp
    have rp: "RawMemory_plus temp p = Some p" using p sg by (simp add: RawMemory_plus_def temp)
    obtain r1 e2 where tc: "T_construct x e1 = (r1, e2)" by (cases "T_construct x e1")
    from T_construct_cases [OF tc]
    have q2: "only_faults_used e1 e2" and r1: "r1 = Some (Val x) \<or> r1 = None \<and> faults e1 \<noteq> []"
      by auto
    from q2 f1 have f2: "faults e = [] \<longrightarrow> faults e2 = []"
      using only_faults_used_nil by blast
    show ?thesis
    proof (cases r1)
      case None
      with r1 f1 have "faults e \<noteq> []" by auto
      with rc r0_some rp tc None full f2 br show ?thesis
        by (simp add: Emplace_def RawMemory_dtor_def Deallocate_def)
    next
      case (Some y)
      note r1_some = this
      with r1 have y: "y = Val x" by simp
      let ?tb = "(replicate ?g None)[p := Some (Val x)]"
      have sc: "slot_construct (m_buffer temp) p (Val x) = Some ?tb"
        using p sg by (simp add: slot_construct_def temp)
      have a1: "0 + p \<le> length ?b" using len full p by simp
      have a2: "\<forall>i. 0 \<le> i \<and> i < 0 + p \<longrightarrow> ?b ! i \<noteq> None" using live p by simp
      have a3: "0 + p \<le> length ?tb" using sg p by simp
      have a4: "\<forall>i. 0 \<le> i \<and> i < 0 + p \<longrightarrow> ?tb ! i = None" using sg p by simp
      from MoveOrCopy_spec [OF a1 a2 a3 a4, of T e2]
      obtain ra src1 tb1 e3 where
        m1: "MoveOrCopy T ?b 0 p ?tb 0 e2 = (ra, src1, tb1, e3)"
        and q3: "only_faults_used e2 e3" and lt1: "length tb1 = length ?tb"
        and ls1: "length src1 = length ?b"
        and alt1: "ra = None \<and>
              (\<forall>j<length ?tb. tb1 ! j =
                 (if 0 \<le> j \<and> j < 0 + p then ?b ! (0 + (j - 0)) else ?tb ! j)) \<and>
              (\<forall>i<length ?b. src1 ! i = (if 0 \<le> i \<and> i < 0 + p then None else ?b ! i))
            \<or> ra = Some (Raised Element_error) \<and> tb1 = ?tb \<and> faults e2 \<noteq> [] \<and>
              (\<forall>i<length ?b. (src1 ! i = None) = (?b ! i = None))"
        by blast
      from q3 f2 have f3: "faults e = [] \<longrightarrow> faults e3 = []"
        using only_faults_used_nil by blast
      from alt1 show ?thesis
      proof
        assume a: "ra = Some (Raised Element_error) \<and> tb1 = ?tb \<and> faults e2 \<noteq> [] \<and>
              (\<forall>i<length ?b. (src1 ! i = None) = (?b ! i = None))"
        with f2 have fe: "faults e \<noteq> []" by auto
        have ri: "RawMemory_index temp p = Some p" using p sg by (simp add: RawMemory_index_def temp)
        have da: "destroy_at ?tb p = Some (?tb[p := None])"
          using p sg by (simp add: destroy_at_def)
        from a fe rc r0_some rp tc r1_some y sc m1 ri da full f3 br show ?thesis
          by (simp add: Emplace_def Deallocate_def)
      next
        assume a: "ra = None \<and>
              (\<forall>j<length ?tb. tb1 ! j =
                 (if 0 \<le> j \<and> j < 0 + p then ?b ! (0 + (j - 0)) else ?tb ! j)) \<and>
              (\<forall>i<length ?b. src1 ! i = (if 0 \<le> i \<and> i < 0 + p then None else ?b ! i))"
        have n1: "\<And>j. j < ?g \<Longrightarrow> tb1 ! j =
                 (if j < p then ?b ! j else if j = p then Some (Val x) else None)"
          using a by (simp add: nth_list_update)
        have s1: "\<And>i. i < ?s \<Longrightarrow> src1 ! i = (if i < p then None else ?b ! i)"
          using a len full by simp
        have rp2: "RawMemory_plus (m_data v) p = Some p"
          using p full by (simp add: RawMemory_plus_def Capacity_def)
        have rp3: "RawMemory_plus temp (p + 1) = Some (p + 1)"
          using p sg by (simp add: RawMemory_plus_def temp)
        have b1: "p + (?s - p) \<le> length src1" using ls1 len full p by simp
        have b2: "\<forall>i. p \<le> i \<and> i < p + (?s - p) \<longrightarrow> src1 ! i \<noteq> None"
          using s1 live p by auto
        have b3: "(p + 1) + (?s - p) \<le> length tb1" using lt1 sg p by simp
        have b4: "\<forall>i. p + 1 \<le> i \<and> i < (p + 1) + (?s - p) \<longrightarrow> tb1 ! i = None"
          using n1 sg p by auto
        from MoveOrCopy_spec [OF b1 b2 b3 b4, of T e3]
        obtain rb src2 tb2 e4 where
          m2: "MoveOrCopy T src1 p (?s - p) tb1 (p + 1) e3 = (rb, src2, tb2, e4)"
          and q4: "only_faults_used e3 e4" and lt2: "length tb2 = length tb1"
          and ls2: "length src2 = length src1"
          and alt2: "rb = None \<and>
              (\<forall>j<length tb1. tb2 ! j =
                 (if p + 1 \<le> j \<and> j < (p + 1) + (?s - p) then src1 ! (p + (j - (p + 1))) else tb1 ! j)) \<and>
              (\<forall>i<length src1. src2 ! i = (if p \<le> i \<and> i < p + (?s - p) then None else src1 ! i))
            \<or> rb = Some (Raised Element_error) \<and> tb2 = tb1 \<and> faults e3 \<noteq> [] \<and>
              (\<forall>i<length src1. (src2 ! i = None) = (src1 ! i = None))"
          by blast
        from q4 f3 have f4: "faults e = [] \<longrightarrow> faults e4 = []"
          using only_faults_used_nil by blast
        from alt2 show ?thesis
        proof
          assume c: "rb = Some (Raised Element_error) \<and> tb2 = tb1 \<and> faults e3 \<noteq> [] \<and>
              (\<forall>i<length src1. (src2 ! i = None) = (src1 ! i = None))"
          with f3 have fe: "faults e \<noteq> []" by auto
          have c1: "0 + (p + 1) \<le> length tb1" using lt1 sg p by simp
          have c2: "\<forall>i. 0 \<le> i \<and> i < 0 + (p + 1) \<longrightarrow> tb1 ! i \<noteq> None"
            using n1 sg p live by auto
          from destroy_n_live [OF c1 c2]
          obtain tb3 where dn: "destroy_n tb1 0 (p + 1) = Some tb3" by blast
          from a c fe rc r0_some rp tc r1_some y sc m1 rp2 rp3 m2 dn full f4 br show ?thesis
            by (simp add: Emplace_def Deallocate_def)
        next
          assume c: "rb = None \<and>
              (\<forall>j<length tb1. tb2 ! j =
                 (if p + 1 \<le> j \<and> j < (p + 1) + (?s - p) then src1 ! (p + (j - (p + 1))) else tb1 ! j)) \<and>
              (\<forall>i<length src1. src2 ! i = (if p \<le> i \<and> i < p + (?s - p) then None else src1 ! i))"
          let ?v' = "(v\<lparr>m_data := (m_data v)\<lparr>m_buffer := tb2, m_capacity := m_capacity temp\<rparr>\<rparr>)
                       \<lparr>m_size := ?s + 1\<rparr>"
          have em: "Emplace T p x (v, e) = (Inr p, ?v', Deallocate src2 e4)"
            using a c rc r0_some rp tc r1_some y sc m1 rp2 rp3 m2 full br
            by (simp add: Emplace_def swap_in_eq)
          have sl: "slots ?v' = tb2" and cp: "Capacity ?v' = ?g" and sz: "m_size ?v' = ?s + 1"
            by (simp_all add: slots_def Capacity_def temp)
          have n2: "\<And>j. j < ?g \<Longrightarrow> tb2 ! j =
                 (if j < p then ?b ! j else if j = p then Some (Val x)
                  else if j \<le> ?s then ?b ! (j - 1) else None)"
          proof -
            fix j assume j: "j < ?g"
            with c lt1 have e: "tb2 ! j =
                 (if p + 1 \<le> j \<and> j < (p + 1) + (?s - p) then src1 ! (p + (j - (p + 1))) else tb1 ! j)"
              by simp
            show "tb2 ! j =
                 (if j < p then ?b ! j else if j = p then Some (Val x)
                  else if j \<le> ?s then ?b ! (j - 1) else None)"
            proof (cases "p + 1 \<le> j \<and> j \<le> ?s")
              case True
              then have "p + (j - (p + 1)) = j - 1" by simp
              with True e p s1 [of "j - 1"] show ?thesis by auto
            next
              case False
              with e p n1 [OF j] show ?thesis by auto
            qed
          qed
          have ok': "vector_ok ?v'"
          proof (rule vector_okI)
            show "Capacity ?v' < size_t_range" unfolding cp by (rule grown_capacity_bound)
            show "length (slots ?v') = Capacity ?v'" unfolding sl cp using lt2 lt1 by simp
            show "m_size ?v' \<le> Capacity ?v'" unfolding sz cp using sg by simp
          next
            fix i assume "i < m_size ?v'"
            then have i: "i < ?s + 1" unfolding sz .
            show "slots ?v' ! i \<noteq> None"
            proof (cases "p < i")
              case True
              with i have "i - 1 < ?s" by simp
              with live have "?b ! (i - 1) \<noteq> None" by simp
              with True i sg n2 [of i] show ?thesis unfolding sl by simp
            next
              case False
              with p have "i < ?s" by simp
              with live have "?b ! i \<noteq> None" by simp
              with False i sg n2 [of i] show ?thesis unfolding sl by auto
            qed
          next
            fix i assume "m_size ?v' \<le> i" "i < Capacity ?v'"
            then have "?s + 1 \<le> i" "i < ?g" unfolding sz cp .
            then show "slots ?v' ! i = None" unfolding sl using n2 [of i] p by simp
          qed
          let ?xs = "elements v"
          have lx: "length ?xs = ?s" using ok by (rule vector_ok_length_elements)
          have el: "elements ?v' = take p ?xs @ [Val x] @ drop p ?xs"
          proof (rule elements_eqI)
            show "m_size ?v' = length (take p ?xs @ [Val x] @ drop p ?xs)"
              using lx p by simp
            show "length (take p ?xs @ [Val x] @ drop p ?xs) \<le> length (slots ?v')"
              unfolding sl using lx p sg lt2 lt1 by simp
          next
            fix i assume "i < length (take p ?xs @ [Val x] @ drop p ?xs)"
            then have i: "i \<le> ?s" using lx p by simp
            show "slots ?v' ! i = Some ((take p ?xs @ [Val x] @ drop p ?xs) ! i)"
            proof (cases "i < p")
              case True
              then show ?thesis unfolding sl
                using n2 [of i] sg i lx p slots_elements [OF ok, of i]
                by (simp add: nth_append)
            next
              case False
              note nlt = this
              show ?thesis
              proof (cases "i = p")
                case True
                then show ?thesis unfolding sl using n2 [of i] sg i lx p
                  by (simp add: nth_append)
              next
                case False
                with nlt have pi: "p < i" by simp
                then have "(take p ?xs @ [Val x] @ drop p ?xs) ! i = ?xs ! (i - 1)"
                  using lx p i by (simp add: nth_append min_def nth_Cons')
                moreover have "tb2 ! i = Some (?xs ! (i - 1))"
                  using n2 [of i] sg i pi slots_elements [OF ok, of "i - 1"] by simp
                ultimately show ?thesis unfolding sl by simp
              qed
            qed
          qed
          have fl: "faults e = [] \<longrightarrow> faults (Deallocate src2 e4) = []"
            using f4 by (simp add: Deallocate_def)
          from em ok' el fl g full cp sz show ?thesis by simp
        qed
      qed
    qed
  qed
qed

lemma Emplace_middle_in_place_cases:
  fixes v :: "'a Vector"
  assumes ok: "vector_ok v" and p: "p < m_size v" and room: "m_size v < Capacity v"
  shows "\<exists>res v' e'. Emplace T p x (v, e) = (res, v', e') \<and> only_faults_used e e' \<and>
    (case res of
       Inr t \<Rightarrow> t = p \<and> vector_ok v' \<and> Capacity v' = Capacity v \<and>
                m_size v' = m_size v + 1 \<and>
                elements v' = take p (elements v) @ [Val x] @ drop p (elements v)
     | Inl f \<Rightarrow> f = Raised Element_error \<and> faults e \<noteq> [])"
proof -
  let ?s = "m_size v"
  let ?b = "slots v"
  let ?l = "?s - 1"
  from ok have len: "length ?b = Capacity v" and cap: "Capacity v < size_t_range"
    and live: "\<forall>i<?s. ?b ! i \<noteq> None"
    and raw: "\<forall>i. ?s \<le> i \<and> i < Capacity v \<longrightarrow> ?b ! i = None"
    by (simp_all add: vector_ok_nth)
  have br: "\<not> \<not> p \<le> ?s" "p \<noteq> ?s" "?s \<noteq> Capacity v" using p room by simp_all
  obtain r1 e1 where tc: "T_construct x e = (r1, e1)" by (cases "T_construct x e")
  from T_construct_cases [OF tc]
  have q1: "only_faults_used e e1" and r1: "r1 = Some (Val x) \<or> r1 = None \<and> faults e \<noteq> []"
    by auto
  show ?thesis
  proof (cases r1)
    case None
    with r1 tc q1 br show ?thesis by (simp add: Emplace_def)
  next
    case (Some y)
    note r1_some = this
    with r1 have y: "y = Val x" by simp
    have ri: "RawMemory_index (m_data v) ?l = Some ?l"
      using p room by (simp add: RawMemory_index_def Capacity_def)
    from live p have "?b ! ?l \<noteq> None" by simp
    then obtain lst where lst: "?b ! ?l = Some lst" by auto
    have rd: "slot_read ?b ?l = Some lst"
      using lst p room len by (simp add: slot_read_def)
    obtain r2 e2 where mc: "T_move_construct T lst e1 = (r2, e2)"
      by (cases "T_move_construct T lst e1")
    from T_move_construct_cases [OF mc]
    have q2': "only_faults_used e1 e2"
      and r2: "r2 = Some (lst, Moved_from) \<or>
               r2 = None \<and> faults e1 \<noteq> [] \<and> \<not> nothrow_move_constructible T"
      by auto
    have q2: "only_faults_used e e2" using q1 q2' by (rule only_faults_used_trans)
    show ?thesis
    proof (cases r2)
      case None
      with r2 q1 have "faults e \<noteq> []" using only_faults_used_nil by blast
      with tc r1_some y ri rd mc None q2 br show ?thesis by (simp add: Emplace_def)
    next
      case (Some yb)
      note r2_some = this
      with r2 have yb: "yb = (lst, Moved_from)" by simp
      let ?b1 = "?b[?l := Some Moved_from, ?s := Some lst]"
      have sc: "slot_construct (?b[?l := Some Moved_from]) ?s lst = Some ?b1"
        using p room len raw by (simp add: slot_construct_def)
      have n1: "\<And>i. i < Capacity v \<Longrightarrow> ?b1 ! i =
                 (if i = ?s then Some lst else if i = ?l then Some Moved_from else ?b ! i)"
        using len by (simp add: nth_list_update)
      let ?n = "?l - p"
      have smb: "std_move_backward T ?b1 p ?l ?s e2 = move_backward_loop T ?b1 ?l ?n (Suc ?l) e2"
        using p by (simp add: std_move_backward_def)
      have c1: "?n \<le> ?l" by simp
      have c2: "?l < length ?b1" using p room len by simp
      have c3: "\<forall>i. ?l - ?n \<le> i \<and> i \<le> ?l \<longrightarrow> ?b1 ! i \<noteq> None"
      proof (intro allI impI)
        fix i assume "?l - ?n \<le> i \<and> i \<le> ?l"
        then have i: "i \<le> ?l" by simp
        with p room have "i < Capacity v" "i < ?s" by simp_all
        with n1 [of i] live show "?b1 ! i \<noteq> None" by auto
      qed
      from move_backward_loop_spec [OF c1 c2 c3, of T e2]
      obtain r3 b2 e3 where
        mb: "move_backward_loop T ?b1 ?l ?n (Suc ?l) e2 = (r3, b2, e3)"
        and q3': "only_faults_used e2 e3" and l2: "length b2 = length ?b1"
        and alt: "r3 = None \<and>
              (\<forall>i<length ?b1. b2 ! i =
                 (if ?l - ?n < i \<and> i \<le> ?l then ?b1 ! (i - 1)
                  else if i = ?l - ?n \<and> 0 < ?n then Some Moved_from else ?b1 ! i))
            \<or> r3 = Some (Raised Element_error) \<and> faults e2 \<noteq> [] \<and>
              \<not> nothrow_move_assignable T"
        by blast
      have q3: "only_faults_used e e3" using q2 q3' by (rule only_faults_used_trans)
      from alt show ?thesis
      proof
        assume a: "r3 = Some (Raised Element_error) \<and> faults e2 \<noteq> [] \<and>
              \<not> nothrow_move_assignable T"
        with q2 have "faults e \<noteq> []" using only_faults_used_nil by blast
        with a tc r1_some y ri rd mc r2_some yb sc smb mb q3 br show ?thesis
          by (simp add: Emplace_def)
      next
        assume a: "r3 = None \<and>
              (\<forall>i<length ?b1. b2 ! i =
                 (if ?l - ?n < i \<and> i \<le> ?l then ?b1 ! (i - 1)
                  else if i = ?l - ?n \<and> 0 < ?n then Some Moved_from else ?b1 ! i))"
        have ln: "?l - ?n = p" using p by simp
        have n2: "\<And>i. i < Capacity v \<Longrightarrow> b2 ! i =
                 (if p < i \<and> i \<le> ?l then ?b ! (i - 1)
                  else if i = p then Some Moved_from
                  else if i = ?s then Some lst else ?b ! i)"
        proof -
          fix i assume i: "i < Capacity v"
          with a len ln have e: "b2 ! i =
                 (if p < i \<and> i \<le> ?l then ?b1 ! (i - 1)
                  else if i = p \<and> 0 < ?n then Some Moved_from else ?b1 ! i)" by simp
          show "b2 ! i =
                 (if p < i \<and> i \<le> ?l then ?b ! (i - 1)
                  else if i = p then Some Moved_from
                  else if i = ?s then Some lst else ?b ! i)"
          proof (cases "p < i \<and> i \<le> ?l")
            case True
            then have "i - 1 < Capacity v" "i - 1 \<noteq> ?s" "i - 1 \<noteq> ?l" using i by auto
            with n1 [of "i - 1"] have "?b1 ! (i - 1) = ?b ! (i - 1)" by simp
            with e True show ?thesis by simp
          next
            case False
            show ?thesis
            proof (cases "i = p")
              case True
              show ?thesis
              proof (cases "0 < ?n")
                case True
                with e False \<open>i = p\<close> show ?thesis by simp
              next
                case False
                with p have "p = ?l" by simp
                with e \<open>i = p\<close> n1 [of i] i p show ?thesis by simp
              qed
            next
              case False
              with e \<open>\<not> (p < i \<and> i \<le> ?l)\<close> n1 [OF i] p show ?thesis by auto
            qed
          qed
        qed
        have ri2: "RawMemory_index (m_data v) p = Some p"
          using p room by (simp add: RawMemory_index_def Capacity_def)
        obtain r4 e4 where ma: "T_move_assign T (Val x) e3 = (r4, e4)"
          by (cases "T_move_assign T (Val x) e3")
        from T_move_assign_cases [OF ma]
        have q4': "only_faults_used e3 e4"
          and r4: "r4 = Some (Val x, Moved_from) \<or>
                   r4 = None \<and> faults e3 \<noteq> [] \<and> \<not> nothrow_move_assignable T"
          by auto
        have q4: "only_faults_used e e4" using q3 q4' by (rule only_faults_used_trans)
        show ?thesis
        proof (cases r4)
          case None
          with r4 q3 have "faults e \<noteq> []" using only_faults_used_nil by blast
          with a tc r1_some y ri rd mc r2_some yb sc smb mb ri2 ma None q4 br show ?thesis
            by (simp add: Emplace_def)
        next
          case (Some z)
          with r4 have z: "z = (Val x, Moved_from)" by simp
          let ?b3 = "b2[p := Some (Val x)]"
          let ?v' = "(with_slots v ?b3)\<lparr>m_size := ?s + 1\<rparr>"
          have pl: "b2 ! p \<noteq> None" using n2 [of p] p room by simp
          have sa: "slot_assign b2 p (Val x) = Some ?b3"
            using pl p room len l2 by (simp add: slot_assign_def)
          have em: "Emplace T p x (v, e) = (Inr p, ?v', e4)"
            using a tc r1_some y ri rd mc r2_some yb sc smb mb ri2 ma Some z sa br
            by (simp add: Emplace_def)
          have n3: "\<And>i. i < Capacity v \<Longrightarrow> ?b3 ! i =
                 (if i < p then ?b ! i else if i = p then Some (Val x)
                  else if i \<le> ?s then ?b ! (i - 1) else ?b ! i)"
          proof -
            fix i assume i: "i < Capacity v"
            show "?b3 ! i =
                 (if i < p then ?b ! i else if i = p then Some (Val x)
                  else if i \<le> ?s then ?b ! (i - 1) else ?b ! i)"
            proof (cases "i = p")
              case True
              with i len l2 show ?thesis by simp
            next
              case False
              then have "?b3 ! i = b2 ! i" by simp
              with n2 [OF i] False lst p show ?thesis by auto
            qed
          qed
          have sl: "slots ?v' = ?b3" and cp: "Capacity ?v' = Capacity v"
            and sz: "m_size ?v' = ?s + 1"
            by simp_all
          have ok': "vector_ok ?v'"
          proof (rule vector_okI)
            show "Capacity ?v' < size_t_range" using cap by simp
            show "length (slots ?v') = Capacity ?v'" using len l2 by simp
            show "m_size ?v' \<le> Capacity ?v'" using room by simp
          next
            fix i assume "i < m_size ?v'"
            then have i: "i < ?s + 1" by simp
            with room have ic: "i < Capacity v" by simp
            show "slots ?v' ! i \<noteq> None"
            proof (cases "p < i")
              case True
              with i have "i - 1 < ?s" by simp
              with live have "?b ! (i - 1) \<noteq> None" by simp
              with True i n3 [OF ic] show ?thesis unfolding sl by simp
            next
              case False
              with p have "i < ?s" by simp
              with live have "?b ! i \<noteq> None" by simp
              with False n3 [OF ic] show ?thesis unfolding sl by auto
            qed
          next
            fix i assume "m_size ?v' \<le> i" "i < Capacity ?v'"
            then have i: "?s + 1 \<le> i" "i < Capacity v" by simp_all
            with raw have "?b ! i = None" by simp
            with i p n3 [of i] show "slots ?v' ! i = None" unfolding sl by simp
          qed
          let ?xs = "elements v"
          have lx: "length ?xs = ?s" using ok by (rule vector_ok_length_elements)
          have el: "elements ?v' = take p ?xs @ [Val x] @ drop p ?xs"
          proof (rule elements_eqI)
            show "m_size ?v' = length (take p ?xs @ [Val x] @ drop p ?xs)"
              using lx p by simp
            show "length (take p ?xs @ [Val x] @ drop p ?xs) \<le> length (slots ?v')"
              unfolding sl using lx p room len l2 by simp
          next
            fix i assume "i < length (take p ?xs @ [Val x] @ drop p ?xs)"
            then have i: "i \<le> ?s" using lx p by simp
            with room have ic: "i < Capacity v" by simp
            show "slots ?v' ! i = Some ((take p ?xs @ [Val x] @ drop p ?xs) ! i)"
            proof (cases "i < p")
              case True
              then show ?thesis unfolding sl
                using n3 [OF ic] i lx p slots_elements [OF ok, of i]
                by (simp add: nth_append)
            next
              case False
              note nlt = this
              show ?thesis
              proof (cases "i = p")
                case True
                then show ?thesis unfolding sl using n3 [OF ic] i lx p
                  by (simp add: nth_append)
              next
                case False
                with nlt have pi: "p < i" by simp
                then have "(take p ?xs @ [Val x] @ drop p ?xs) ! i = ?xs ! (i - 1)"
                  using lx p i by (simp add: nth_append min_def nth_Cons')
                moreover have "?b3 ! i = Some (?xs ! (i - 1))"
                  using n3 [OF ic] i pi slots_elements [OF ok, of "i - 1"] by simp
                ultimately show ?thesis unfolding sl by simp
              qed
            qed
          qed
          from em ok' el q4 cp sz show ?thesis by simp
        qed
      qed
    qed
  qed
qed

lemma Emplace_middle_grow_returns:
  fixes v :: "'a Vector"
  assumes p: "p < m_size v" and full: "m_size v = Capacity v"
    and ret: "Emplace T p x (v, e) = (Inr i, v', e')"
  shows "m_size v \<le> grown_capacity v"
proof -
  let ?g = "grown_capacity v"
  have br: "\<not> \<not> p \<le> m_size v" "p \<noteq> m_size v" using p by simp_all
  obtain r0 :: "'a RawMemory option" and e1 where rc: "RawMemory_ctor ?g e = (r0, e1)"
    by (cases "RawMemory_ctor ?g e :: 'a RawMemory option \<times> env")
  from ret rc br full obtain temp where r0: "r0 = Some temp"
    by (cases r0) (auto simp: Emplace_def)
  from RawMemory_ctor_cases [OF rc] r0
  have temp: "temp = \<lparr>m_buffer = replicate ?g None, m_capacity = ?g\<rparr>" by auto
  from ret rc r0 br full obtain q where rp: "RawMemory_plus temp p = Some q"
    by (cases "RawMemory_plus temp p") (auto simp: Emplace_def)
  obtain r1 e2 where tc: "T_construct x e1 = (r1, e2)" by (cases "T_construct x e1")
  from ret rc r0 rp tc br full obtain y where r1: "r1 = Some y"
    by (cases r1) (auto simp: Emplace_def)
  from ret rc r0 rp tc r1 br full obtain tb where sc: "slot_construct (m_buffer temp) q y = Some tb"
    by (cases "slot_construct (m_buffer temp) q y") (auto simp: Emplace_def)
  from slot_construct_length [OF sc] have ltb: "length tb = ?g" by (simp add: temp)
  obtain ra src1 tb1 e3 where m1: "MoveOrCopy T (slots v) 0 p tb 0 e2 = (ra, src1, tb1, e3)"
    by (cases "MoveOrCopy T (slots v) 0 p tb 0 e2")
  from ret rc r0 rp tc r1 sc m1 br full have ra: "ra = None"
    by (cases ra) (auto simp: Emplace_def split: failure.splits option.splits)
  from MoveOrCopy_returns [OF m1 [unfolded ra]] ltb have lt1: "length tb1 = ?g" by simp
  from ret rc r0 rp tc r1 sc m1 ra br full obtain fv tv where
    rp2: "RawMemory_plus (m_data v) p = Some fv" and rp3: "RawMemory_plus temp (p + 1) = Some tv"
    by (cases "RawMemory_plus (m_data v) p"; cases "RawMemory_plus temp (p + 1)")
       (auto simp: Emplace_def)
  from rp3 have tv: "tv = p + 1" by (simp add: RawMemory_plus_def split: if_splits)
  obtain rb src2 tb2 e4 where
    m2: "MoveOrCopy T src1 fv (m_size v - p) tb1 tv e3 = (rb, src2, tb2, e4)"
    by (cases "MoveOrCopy T src1 fv (m_size v - p) tb1 tv e3")
  from ret rc r0 rp tc r1 sc m1 ra rp2 rp3 m2 br full have rb: "rb = None"
    by (cases rb) (auto simp: Emplace_def split: failure.splits option.splits)
  from MoveOrCopy_returns [OF m2 [unfolded rb]] lt1 tv p
  show ?thesis by auto
qed

lemma Emplace_cases:
  fixes v :: "'a Vector"
  assumes ok: "vector_ok v" and p: "p \<le> m_size v"
  shows "\<exists>res v' e'. Emplace T p x (v, e) = (res, v', e') \<and>
    (case res of
       Inr t \<Rightarrow> t = p \<and> vector_ok v' \<and> m_size v' = m_size v + 1 \<and>
                elements v' = take p (elements v) @ [Val x] @ drop p (elements v) \<and>
                Capacity v' = (if m_size v = Capacity v then max 1 (2 * Capacity v)
                               else Capacity v)
     | Inl f \<Rightarrow> \<not> m_size v < 2 ^ 63 \<or>
                (f = Raised Bad_alloc \<or> f = Raised Element_error) \<and> faults e \<noteq> [])"
proof -
  let ?s = "m_size v"
  let ?xs = "elements v"
  have lx: "length ?xs = ?s" using ok by (rule vector_ok_length_elements)
  from ok have le: "?s \<le> Capacity v" by (simp add: vector_ok_nth)
  show ?thesis
  proof (cases "p = ?s")
    case True
    then have em: "Emplace T p x (v, e) = EmplaceBack T x (v, e)" by (simp add: Emplace_def)
    have app: "take p ?xs @ [Val x] @ drop p ?xs = ?xs @ [Val x]" using True lx by simp
    show ?thesis
    proof (cases "?s = Capacity v")
      case True
      from EmplaceBack_grow_cases [OF ok True, of T x e]
      obtain res v' e' where eb: "EmplaceBack T x (v, e) = (res, v', e')"
        and c: "case res of
           Inr t \<Rightarrow> t = m_size v \<and> vector_ok v' \<and> Capacity v' = max 1 (2 * Capacity v) \<and>
                    m_size v' = m_size v + 1 \<and> elements v' = elements v @ [Val x]
         | Inl f \<Rightarrow> f = Assert_failed \<and> \<not> m_size v < 2 ^ 63 \<or>
                    (f = Raised Bad_alloc \<or> f = Raised Element_error) \<and> faults e \<noteq> []"
        by blast
      from c True \<open>p = ?s\<close> app show ?thesis unfolding em eb
        by (cases res) auto
    next
      case False
      with le have lt: "?s < Capacity v" by simp
      from EmplaceBack_in_place_cases [OF ok lt, of e T x] False \<open>p = ?s\<close> app
      show ?thesis unfolding em by auto
    qed
  next
    case False
    with p have pl: "p < ?s" by simp
    show ?thesis
    proof (cases "?s = Capacity v")
      case False
      with le have lt: "?s < Capacity v" by simp
      from Emplace_middle_in_place_cases [OF ok pl lt, of T x e]
      obtain res v' e' where em: "Emplace T p x (v, e) = (res, v', e')"
        and c: "case res of
           Inr t \<Rightarrow> t = p \<and> vector_ok v' \<and> Capacity v' = Capacity v \<and>
                    m_size v' = m_size v + 1 \<and>
                    elements v' = take p (elements v) @ [Val x] @ drop p (elements v)
         | Inl f \<Rightarrow> f = Raised Element_error \<and> faults e \<noteq> []"
        by blast
      from c False show ?thesis unfolding em by (cases res) auto
    next
      case True
      note full = this
      show ?thesis
      proof (cases "?s \<le> grown_capacity v")
        case True
        from Emplace_middle_grow_cases [OF ok pl full True, of T x e]
        obtain res v' e' where em: "Emplace T p x (v, e) = (res, v', e')"
          and c: "case res of
             Inr t \<Rightarrow> t = p \<and> vector_ok v' \<and> Capacity v' = max 1 (2 * Capacity v) \<and>
                      m_size v' = m_size v + 1 \<and>
                      elements v' = take p (elements v) @ [Val x] @ drop p (elements v)
           | Inl f \<Rightarrow> (f = Raised Bad_alloc \<or> f = Raised Element_error) \<and> faults e \<noteq> []"
          by blast
        from c full show ?thesis unfolding em by (cases res) auto
      next
        case False
        have big: "\<not> ?s < 2 ^ 63"
        proof
          assume "?s < 2 ^ 63"
          then have "grown_capacity v = max 1 (2 * ?s)" by (rule grown_capacity_small)
          with False show False by (simp add: max_def split: if_splits)
        qed
        obtain res v' e' where em: "Emplace T p x (v, e) = (res, v', e')"
          by (cases "Emplace T p x (v, e)")
        show ?thesis
        proof (cases res)
          case (Inl f)
          with em big show ?thesis by simp
        next
          case (Inr i)
          with em Emplace_middle_grow_returns [OF pl full, of T x e i v' e'] False
          show ?thesis by simp
        qed
      qed
    qed
  qed
qed

lemma Vector_copy_ctor_cases:
  fixes A :: "'a Vector"
  assumes ok: "vector_ok A"
  shows "\<exists>res e'. Vector_copy_ctor T A e = (res, e') \<and>
    (faults e = [] \<longrightarrow> faults e' = []) \<and> leaked e' = leaked e \<and>
    (case res of
       Inr B \<Rightarrow> vector_ok B \<and> Capacity B = m_size A \<and> m_size B = m_size A \<and>
                elements B = elements A \<and>
                news e' = news e + (if m_size A = 0 then 0 else 1) \<and> deletes e' = deletes e
     | Inl f \<Rightarrow> faults e \<noteq> [] \<and>
                (f = Raised Bad_alloc \<and> news e' = news e \<and> deletes e' = deletes e \<or>
                 f = Raised Element_error \<and> news e' = news e + 1 \<and>
                   deletes e' = deletes e + 1))"
proof -
  let ?s = "m_size A"
  let ?b = "slots A"
  from ok have len: "length ?b = Capacity A" and cap: "Capacity A < size_t_range"
    and le: "?s \<le> Capacity A"
    and live: "\<forall>i<?s. ?b ! i \<noteq> None"
    by (simp_all add: vector_ok_nth)
  obtain r0 :: "'a RawMemory option" and e1 where rc: "RawMemory_ctor ?s e = (r0, e1)"
    by (cases "RawMemory_ctor ?s e :: 'a RawMemory option \<times> env")
  from RawMemory_ctor_cases [OF rc]
  have f1: "faults e = [] \<longrightarrow> faults e1 = []" and k1: "leaked e1 = leaked e"
    and d1: "deletes e1 = deletes e"
    and r0: "r0 = None \<and> faults e \<noteq> [] \<and> news e1 = news e \<or>
             r0 = Some \<lparr>m_buffer = replicate ?s None, m_capacity = ?s\<rparr> \<and>
               news e1 = news e + (if ?s = 0 then 0 else 1)"
    by auto
  show ?thesis
  proof (cases r0)
    case None
    with r0 rc f1 k1 d1 show ?thesis by (simp add: Vector_copy_ctor_def)
  next
    case (Some d)
    note r0_some = this
    with r0 have d: "d = \<lparr>m_buffer = replicate ?s None, m_capacity = ?s\<rparr>"
      and n1: "news e1 = news e + (if ?s = 0 then 0 else 1)" by simp_all
    let ?dst = "replicate ?s (None :: 'a obj option)"
    have a1: "0 + ?s \<le> length ?b" using le len by simp
    have a2: "\<forall>i. 0 \<le> i \<and> i < 0 + ?s \<longrightarrow> ?b ! i \<noteq> None" using live by simp
    have a3: "0 + ?s \<le> length ?dst" by simp
    have a4: "\<forall>i. 0 \<le> i \<and> i < 0 + ?s \<longrightarrow> ?dst ! i = None" by simp
    from uninitialized_copy_n_spec [OF a1 a2 a3 a4, of e1]
    obtain r dst' e2 where
      uc: "uninitialized_copy_n ?b 0 ?s ?dst 0 e1 = (r, dst', e2)"
      and q2: "only_faults_used e1 e2" and ld: "length dst' = length ?dst"
      and alt: "r = None \<and>
              (\<forall>j<length ?dst. dst' ! j =
                 (if 0 \<le> j \<and> j < 0 + ?s then ?b ! (0 + (j - 0)) else ?dst ! j))
            \<or> r = Some (Raised Element_error) \<and> dst' = ?dst \<and> faults e1 \<noteq> []"
      by blast
    from q2 f1 have f2: "faults e = [] \<longrightarrow> faults e2 = []"
      using only_faults_used_nil by blast
    from q2 k1 d1 n1 have env2: "leaked e2 = leaked e" "deletes e2 = deletes e"
      "news e2 = news e + (if ?s = 0 then 0 else 1)"
      by (simp_all add: only_faults_used_def)
    from alt show ?thesis
    proof
      assume a: "r = Some (Raised Element_error) \<and> dst' = ?dst \<and> faults e1 \<noteq> []"
      with f1 have fe: "faults e \<noteq> []" by auto
      have s0: "?s \<noteq> 0"
      proof
        assume "?s = 0"
        with uc a show False by simp
      qed
      have dl: "Deallocate ?dst e2 = e2\<lparr>deletes := deletes e2 + 1\<rparr>"
        using s0 Deallocate_raw [of ?dst e2] by simp
      from a fe rc r0_some d uc s0 dl env2 f2 show ?thesis
        by (simp add: Vector_copy_ctor_def slots_def [symmetric] RawMemory_dtor_def)
    next
      assume a: "r = None \<and>
              (\<forall>j<length ?dst. dst' ! j =
                 (if 0 \<le> j \<and> j < 0 + ?s then ?b ! (0 + (j - 0)) else ?dst ! j))"
      let ?B = "\<lparr>m_data = d\<lparr>m_buffer := dst'\<rparr>, m_size = ?s\<rparr>"
      have vc: "Vector_copy_ctor T A e = (Inr ?B, e2)"
        using a rc r0_some d uc by (simp add: Vector_copy_ctor_def slots_def [symmetric])
      have sl: "slots ?B = dst'" and cp: "Capacity ?B = ?s" and sz: "m_size ?B = ?s"
        by (simp_all add: slots_def Capacity_def d)
      have nth: "\<And>j. j < ?s \<Longrightarrow> dst' ! j = ?b ! j" using a by simp
      have ok': "vector_ok ?B"
      proof (rule vector_okI)
        show "Capacity ?B < size_t_range" unfolding cp using le cap by simp
        show "length (slots ?B) = Capacity ?B" unfolding sl cp using ld by simp
        show "m_size ?B \<le> Capacity ?B" unfolding sz cp by simp
      next
        fix i assume "i < m_size ?B"
        then show "slots ?B ! i \<noteq> None" unfolding sl using nth [of i] live by simp
      next
        fix i assume "m_size ?B \<le> i" "i < Capacity ?B"
        then show "slots ?B ! i = None" unfolding cp by simp
      qed
      have el: "elements ?B = elements A"
      proof (rule elements_eqI)
        show "m_size ?B = length (elements A)" using ok by (simp add: vector_ok_length_elements)
        show "length (elements A) \<le> length (slots ?B)"
          unfolding sl using ok ld by (simp add: vector_ok_length_elements)
      next
        fix i assume "i < length (elements A)"
        then have "i < ?s" using ok by (simp add: vector_ok_length_elements)
        then show "slots ?B ! i = Some (elements A ! i)"
          unfolding sl using nth [of i] slots_elements [OF ok, of i] by simp
      qed
      from vc ok' el cp sz env2 f2 show ?thesis by simp
    qed
  qed
qed

section \<open>Lemmas on the heap of blocks\<close>

lemma put_block_apply:
  "put_block p b h c = (if c = p \<and> h p \<noteq> None then Some b else h c)"
  by (auto simp: put_block_def split: option.splits)

lemma Deallocate_at_heap:
  "Deallocate_at p (h, e) = (h2, e2) \<Longrightarrow> h2 = (if p = 0 then h else h(p := None))"
  by (auto simp: Deallocate_at_def split: if_splits)

lemma Allocate_at_cases:
  "Allocate_at a n (h, e) = (r, h1, e1) \<Longrightarrow>
     (faults e = [] \<longrightarrow> faults e1 = []) \<and> leaked e1 = leaked e \<and> deletes e1 = deletes e \<and>
     (r = None \<and> faults e \<noteq> [] \<and> h1 = h \<and> news e1 = news e \<and> n \<noteq> 0 \<or>
      r = Some 0 \<and> n = 0 \<and> h1 = h \<and> e1 = e \<or>
      r = Some a \<and> n \<noteq> 0 \<and> h1 = h(a \<mapsto> replicate n None) \<and> news e1 = news e + 1)"
  unfolding Allocate_at_def next_call_throws_def
  by (cases "faults e") (auto split: if_splits bool.splits)

lemma allocated_not_null: "h 0 = None \<Longrightarrow> h p = Some y \<Longrightarrow> 0 < (p::nat)"
  by (cases p) auto

lemma only_through_block_at:
  "only_through p h h2 \<Longrightarrow> q \<noteq> p \<Longrightarrow> h 0 = None \<Longrightarrow> h q \<noteq> None \<or> q = 0 \<Longrightarrow>
   block_at h2 q = block_at h q"
  by (auto simp: only_through_def block_at_def)

lemma only_through_vector_at:
  "only_through p h h2 \<Longrightarrow> p_buffer w \<noteq> p \<Longrightarrow> h 0 = None \<Longrightarrow>
   h (p_buffer w) \<noteq> None \<or> p_buffer w = 0 \<Longrightarrow> vector_at h2 w = vector_at h w"
  by (simp add: vector_at_def only_through_block_at)

lemma index_assign_only_through:
  assumes "index_assign w i x (h, e) = (res, h1, e1)" and "h 0 = None"
  shows "only_through (p_buffer w) h h1"
  using assms
  by (auto simp: index_assign_def assign_through_def Vector_index_def only_through_def
      put_block_apply split: if_splits prod.splits option.splits sum.splits
      intro: allocated_not_null)

lemma PopBack_at_only_through:
  assumes "PopBack_at w (h, e) = (res, w1, h1, e1)" and "h 0 = None"
  shows "only_through (p_buffer w) h h1"
  using assms
  by (auto simp: PopBack_at_def only_through_def put_block_apply
      split: if_splits prod.splits option.splits intro: allocated_not_null)

lemma EmplaceBack_at_only_through:
  assumes "EmplaceBack_at T a x w (h, e) = (res, w1, h1, e1)"
    and "h 0 = None" and "a \<noteq> 0" and "h a = None"
  shows "only_through (p_buffer w) h h1"
proof (cases "p_size w = p_capacity w")
  case False
  with assms show ?thesis
    by (auto simp: EmplaceBack_at_def only_through_def put_block_apply
        split: if_splits prod.splits option.splits intro: allocated_not_null)
next
  case True
  obtain r h0 e0 where al: "Allocate_at a (grown_capacity (vector_at h w)) (h, e) = (r, h0, e0)"
    by (cases "Allocate_at a (grown_capacity (vector_at h w)) (h, e)")
  from Allocate_at_cases [OF al]
  have r: "r = None \<and> h0 = h \<or> r = Some 0 \<and> h0 = h \<or>
           r = Some a \<and> h0 = h(a \<mapsto> replicate (grown_capacity (vector_at h w)) None)"
    by auto
  have h0: "h0 0 = None" "\<And>c. c \<noteq> a \<Longrightarrow> h0 c = h c"
    using r assms(2,3) by auto
  from assms(1) True al have
    "h1 0 = None \<and> (\<forall>c. c \<noteq> p_buffer w \<and> c \<noteq> a \<longrightarrow> h1 c = h0 c)"
    using h0(1) r assms(3)
    by (auto simp: EmplaceBack_at_def put_block_apply
        split: if_splits prod.splits option.splits failure.splits
        dest!: Deallocate_at_heap intro: allocated_not_null)
  with h0 assms(4) show ?thesis
    by (auto simp: only_through_def)
qed

lemma block_at_nonempty: "block_at h p \<noteq> [] \<Longrightarrow> \<exists>blk. h p = Some blk \<and> block_at h p = blk"
  by (auto simp: block_at_def split: option.splits)

lemma block_at_put_block: "h p = Some blk \<Longrightarrow> block_at (put_block p b h) p = b"
  by (simp add: block_at_def put_block_apply)

lemma elements_update:
  "elements \<lparr>m_data = \<lparr>m_buffer = b[i := Some y], m_capacity = c\<rparr>, m_size = s\<rparr>
     = (elements \<lparr>m_data = \<lparr>m_buffer = b, m_capacity = c\<rparr>, m_size = s\<rparr>)[i := y]"
proof -
  have "map the (take s (b[i := Some y])) = (map the (take s b))[i := y]"
  proof (cases "i < s")
    case True
    then have "take s (b[i := Some y]) = (take s b)[i := Some y]"
      by (simp add: take_update_swap)
    then show ?thesis by (simp add: map_update)
  next
    case False
    then show ?thesis by (simp add: list_update_beyond)
  qed
  then show ?thesis by (simp add: elements_def)
qed

lemma index_assign_elements:
  assumes "index_assign w i x (h, e) = (Inr (), h1, e1)"
  shows "elements (vector_at h1 w) = (elements (vector_at h w))[i := Val x]"
proof -
  let ?b = "block_at h (p_buffer w)"
  from assms have i: "i < p_size w"
    by (auto simp: index_assign_def Vector_index_def split: if_splits)
  from assms obtain y where y: "T_copy_assign (Val x) e = (Some y, e1)"
    and sa: "slot_assign ?b i y \<noteq> None"
    and h1: "h1 = put_block (p_buffer w) (the (slot_assign ?b i y)) h"
    by (auto simp: index_assign_def Vector_index_def assign_through_def
        split: if_splits prod.splits option.splits)
  from T_copy_assign_cases [OF y] have yv: "y = Val x" by simp
  from sa have il: "i < length ?b" and b': "the (slot_assign ?b i y) = ?b[i := Some y]"
    by (auto simp: slot_assign_def split: if_splits)
  from il have "?b \<noteq> []" by auto
  from block_at_nonempty [OF this] obtain blk where blk: "h (p_buffer w) = Some blk" by blast
  from block_at_put_block [where h = h and p = "p_buffer w", OF blk] h1 b' have "block_at h1 (p_buffer w) = ?b[i := Some y]"
    by simp
  then show ?thesis
    unfolding vector_at_def yv by (simp only: elements_update)
qed

lemma PopBack_at_refines:
  assumes "PopBack_at w (h, e) = (res, w1, h1, e1)"
  shows "PopBack (vector_at h w, e) = (res, vector_at h1 w1, e1)"
proof (cases "p_size w > 0")
  case False
  with assms show ?thesis by (auto simp: PopBack_at_def PopBack_def vector_at_def)
next
  case True
  let ?b = "block_at h (p_buffer w)"
  show ?thesis
  proof (cases "destroy_at ?b (p_size w - 1)")
    case None
    with assms True show ?thesis
      by (auto simp: PopBack_at_def PopBack_def vector_at_def slots_def)
  next
    case (Some b)
    then have "?b \<noteq> []" by (auto simp: destroy_at_def split: if_splits)
    from block_at_nonempty [OF this] obtain blk where blk: "h (p_buffer w) = Some blk" by blast
    from block_at_put_block [where h = h and p = "p_buffer w", OF blk]
    have "block_at (put_block (p_buffer w) b h) (p_buffer w) = b" .
    with assms True Some show ?thesis
      by (auto simp: PopBack_at_def PopBack_def vector_at_def slots_def with_slots_def)
  qed
qed

lemma Vector_copy_ctor_at_cases:
  fixes A :: Vector_object and h :: "'a heap"
  assumes nul: "h 0 = None" and a0: "a \<noteq> 0" and fresh: "h a = None"
    and ok: "vector_ok (vector_at h A)"
  shows "\<exists>res h' e'. Vector_copy_ctor_at T a A (h, e) = (res, h', e') \<and>
    (\<forall>c. c \<noteq> a \<longrightarrow> h' c = h c) \<and> leaked e' = leaked e \<and>
    (case res of
       Inr B \<Rightarrow> vector_ok (vector_at h' B) \<and> Capacity (vector_at h' B) = p_size A \<and>
                p_size B = p_size A \<and>
                elements (vector_at h' B) = elements (vector_at h A) \<and>
                news e' = news e + (if p_size A = 0 then 0 else 1) \<and> deletes e' = deletes e \<and>
                p_buffer B = (if p_size A = 0 then 0 else a) \<and>
                (p_size A \<noteq> 0 \<longrightarrow> h' a \<noteq> None \<and> h (p_buffer A) \<noteq> None)
     | Inl f \<Rightarrow> faults e \<noteq> [] \<and> h' = h \<and>
                (f = Raised Bad_alloc \<and> news e' = news e \<and> deletes e' = deletes e \<or>
                 f = Raised Element_error \<and> news e' = news e + 1 \<and>
                   deletes e' = deletes e + 1))"
proof -
  let ?v = "vector_at h A"
  let ?s = "p_size A"
  let ?b = "block_at h (p_buffer A)"
  have sv: "slots ?v = ?b" "m_size ?v = ?s" "Capacity ?v = p_capacity A"
    by (simp_all add: vector_at_def slots_def Capacity_def)
  from ok have len: "length ?b = p_capacity A" and cap: "p_capacity A < size_t_range"
    and le: "?s \<le> p_capacity A"
    and live: "\<forall>i<?s. ?b ! i \<noteq> None"
    unfolding vector_ok_nth sv by simp_all
  obtain r h1 e1 where al: "Allocate_at a ?s (h, e) = (r, h1, e1)"
    by (cases "Allocate_at a ?s (h, e)")
  from Allocate_at_cases [OF al]
  have f1: "faults e = [] \<longrightarrow> faults e1 = []" and k1: "leaked e1 = leaked e"
    and d1: "deletes e1 = deletes e"
    and r: "r = None \<and> faults e \<noteq> [] \<and> h1 = h \<and> news e1 = news e \<and> ?s \<noteq> 0 \<or>
      r = Some 0 \<and> ?s = 0 \<and> h1 = h \<and> e1 = e \<or>
      r = Some a \<and> ?s \<noteq> 0 \<and> h1 = h(a \<mapsto> replicate ?s None) \<and> news e1 = news e + 1"
    by auto
  from r show ?thesis
  proof (elim disjE)
    assume "r = None \<and> faults e \<noteq> [] \<and> h1 = h \<and> news e1 = news e \<and> ?s \<noteq> 0"
    with al k1 d1 show ?thesis by (simp add: Vector_copy_ctor_at_def)
  next
    assume c: "r = Some 0 \<and> ?s = 0 \<and> h1 = h \<and> e1 = e"
    let ?B = "\<lparr>p_buffer = 0, p_capacity = ?s, p_size = ?s\<rparr>"
    have b0: "block_at h 0 = ([] :: 'a block)" using nul by (simp add: block_at_def)
    have cc: "Vector_copy_ctor_at T a A (h, e) = (Inr ?B, h, e)"
      using al c nul by (simp add: Vector_copy_ctor_at_def put_block_def)
    have okB: "vector_ok (vector_at h ?B)"
      using c b0 by (simp add: vector_ok_def vector_at_def size_t_range_def)
    have el: "elements (vector_at h ?B) = elements (vector_at h A)"
      using c by (simp add: elements_def vector_at_def)
    from cc okB el c show ?thesis by (simp add: Capacity_def vector_at_def)
  next
    assume c: "r = Some a \<and> ?s \<noteq> 0 \<and> h1 = h(a \<mapsto> replicate ?s None) \<and> news e1 = news e + 1"
    from c le len have "?b \<noteq> []" by auto
    from block_at_nonempty [OF this] obtain blk where hA: "h (p_buffer A) = Some blk" by blast
    with fresh have ne: "p_buffer A \<noteq> a" by auto
    have src: "block_at h1 (p_buffer A) = ?b" using c ne by (simp add: block_at_def)
    let ?dst = "replicate ?s (None :: 'a obj option)"
    have dst: "block_at h1 a = ?dst" using c by (simp add: block_at_def)
    have a1: "0 + ?s \<le> length ?b" using le len by simp
    have a2: "\<forall>i. 0 \<le> i \<and> i < 0 + ?s \<longrightarrow> ?b ! i \<noteq> None" using live by simp
    have a3: "0 + ?s \<le> length ?dst" by simp
    have a4: "\<forall>i. 0 \<le> i \<and> i < 0 + ?s \<longrightarrow> ?dst ! i = None" by simp
    from uninitialized_copy_n_spec [OF a1 a2 a3 a4, of e1]
    obtain ru dst' e2 where
      uc: "uninitialized_copy_n ?b 0 ?s ?dst 0 e1 = (ru, dst', e2)"
      and q2: "only_faults_used e1 e2" and ld: "length dst' = length ?dst"
      and alt: "ru = None \<and>
              (\<forall>j<length ?dst. dst' ! j =
                 (if 0 \<le> j \<and> j < 0 + ?s then ?b ! (0 + (j - 0)) else ?dst ! j))
            \<or> ru = Some (Raised Element_error) \<and> dst' = ?dst \<and> faults e1 \<noteq> []"
      by blast
    from q2 k1 d1 c have env2: "leaked e2 = leaked e" "deletes e2 = deletes e"
      "news e2 = news e + 1"
      by (simp_all add: only_faults_used_def)
    have pb: "put_block a dst' h1 = h(a \<mapsto> dst')"
      using c by (auto simp: put_block_def)
    from alt show ?thesis
    proof
      assume f: "ru = Some (Raised Element_error) \<and> dst' = ?dst \<and> faults e1 \<noteq> []"
      with f1 have fe: "faults e \<noteq> []" by auto
      have flt: "filter (\<lambda>s. s \<noteq> None) ?dst = []" by (simp add: filter_empty_conv)
      have undo: "(h(a \<mapsto> ?dst))(a := None) = h" using fresh by auto
      have cc: "Vector_copy_ctor_at T a A (h, e)
                  = (Inl (Raised Element_error), h, e2\<lparr>deletes := deletes e2 + 1\<rparr>)"
        using al c src dst uc f pb a0 flt undo
        by (simp add: Vector_copy_ctor_at_def Deallocate_at_def block_at_def)
      from cc fe env2 show ?thesis by simp
    next
      assume s: "ru = None \<and>
              (\<forall>j<length ?dst. dst' ! j =
                 (if 0 \<le> j \<and> j < 0 + ?s then ?b ! (0 + (j - 0)) else ?dst ! j))"
      let ?B = "\<lparr>p_buffer = a, p_capacity = ?s, p_size = ?s\<rparr>"
      let ?h' = "h(a \<mapsto> dst')"
      have cc: "Vector_copy_ctor_at T a A (h, e) = (Inr ?B, ?h', e2)"
        using al c src dst uc s pb by (simp add: Vector_copy_ctor_at_def)
      have sB: "slots (vector_at ?h' ?B) = dst'" "m_size (vector_at ?h' ?B) = ?s"
        "Capacity (vector_at ?h' ?B) = ?s"
        by (simp_all add: vector_at_def slots_def Capacity_def block_at_def)
      have nth: "\<And>j. j < ?s \<Longrightarrow> dst' ! j = ?b ! j" using s by simp
      have okB: "vector_ok (vector_at ?h' ?B)"
      proof (rule vector_okI)
        show "Capacity (vector_at ?h' ?B) < size_t_range" unfolding sB using le cap by simp
        show "length (slots (vector_at ?h' ?B)) = Capacity (vector_at ?h' ?B)"
          unfolding sB using ld by simp
        show "m_size (vector_at ?h' ?B) \<le> Capacity (vector_at ?h' ?B)" unfolding sB by simp
      next
        fix i assume "i < m_size (vector_at ?h' ?B)"
        then show "slots (vector_at ?h' ?B) ! i \<noteq> None"
          unfolding sB using nth [of i] live by simp
      next
        fix i assume "m_size (vector_at ?h' ?B) \<le> i" "i < Capacity (vector_at ?h' ?B)"
        then show "slots (vector_at ?h' ?B) ! i = None" unfolding sB by simp
      qed
      have lx: "length (elements ?v) = ?s"
        using vector_ok_length_elements [OF ok] sv by simp
      have el: "elements (vector_at ?h' ?B) = elements ?v"
      proof (rule elements_eqI)
        show "m_size (vector_at ?h' ?B) = length (elements ?v)" unfolding sB using lx by simp
        show "length (elements ?v) \<le> length (slots (vector_at ?h' ?B))"
          unfolding sB using lx ld by simp
      next
        fix i assume "i < length (elements ?v)"
        then have i: "i < ?s" using lx by simp
        then have "i < m_size ?v" using sv by simp
        from slots_elements [OF ok this] have "?b ! i = Some (elements ?v ! i)"
          unfolding sv .
        with i show "slots (vector_at ?h' ?B) ! i = Some (elements ?v ! i)"
          unfolding sB using nth [of i] by simp
      qed
      from cc okB el sB env2 c hA show ?thesis by simp
    qed
  qed
qed

section \<open>Lemmas on the capacity\<close>

lemma swap_in_capacity:
  "swap_in v old temp tb e = (v', e') \<Longrightarrow>
     m_capacity (m_data v') = m_capacity temp \<and> m_size v' = m_size v"
  by (auto simp: swap_in_eq)

lemma RawMemory_ctor_capacity:
  "RawMemory_ctor n e = (Some m, e') \<Longrightarrow> m_capacity m = n \<and> length (m_buffer m) = n"
  by (auto simp: RawMemory_ctor_def Allocate_def split: if_splits prod.splits bool.splits)

lemma PopBack_capacity: "PopBack (v, e) = (res, v', e') \<Longrightarrow> Capacity v' = Capacity v"
  by (auto simp: PopBack_def split: if_splits option.splits)

lemma Erase_capacity: "Erase T p (v, e) = (res, v', e') \<Longrightarrow> Capacity v' = Capacity v"
  by (auto simp: Erase_def Let_def split: if_splits option.splits prod.splits sum.splits
      dest!: PopBack_capacity)

lemma Reserve_capacity:
  assumes "Reserve T n (v, e) = (res, v', e')"
  shows "Capacity v \<le> Capacity v'"
proof (cases "n \<le> m_capacity (m_data v)")
  case True
  with assms show ?thesis by (simp add: Reserve_def)
next
  case False
  with assms show ?thesis
    by (auto simp: Reserve_def Capacity_def with_slots_def
        split: option.splits prod.splits failure.splits
        dest!: swap_in_capacity RawMemory_ctor_capacity)
qed

lemma Resize_capacity:
  assumes "Resize T n (v, e) = (res, v', e')"
  shows "Capacity v \<le> Capacity v'"
  using assms
  by (auto simp: Resize_def split: if_splits option.splits prod.splits sum.splits
      dest!: Reserve_capacity)

lemma EmplaceBack_grow_capacity:
  assumes "EmplaceBack T x (v, e) = (res, v', e')" and "m_size v = Capacity v"
  shows "Capacity v' = Capacity v \<and> (\<forall>t. res \<noteq> Inr t) \<or>
         Capacity v' = grown_capacity v \<and> m_size v \<le> grown_capacity v"
  using assms
  by (auto simp: EmplaceBack_def RawMemory_plus_def Capacity_def with_slots_def
      split: option.splits prod.splits failure.splits if_splits
      dest!: swap_in_capacity RawMemory_ctor_capacity)

lemma EmplaceBack_capacity:
  assumes "EmplaceBack T x (v, e) = (res, v', e')"
  shows "Capacity v \<le> Capacity v'"
    and "res = Inr t \<Longrightarrow> m_size v = Capacity v \<Longrightarrow> Capacity v' = max 1 (2 * Capacity v)"
proof -
  show "Capacity v \<le> Capacity v'"
  proof (cases "m_size v = Capacity v")
    case False
    with assms show ?thesis
      by (auto simp: EmplaceBack_def split: option.splits prod.splits)
  next
    case True
    from EmplaceBack_grow_capacity [OF assms True] True show ?thesis by auto
  qed
  show "Capacity v' = max 1 (2 * Capacity v)" if "res = Inr t" "m_size v = Capacity v"
    using EmplaceBack_grow_capacity [OF assms that(2)] that grown_capacity_no_wrap (1) [of v]
    by auto
qed

lemma Emplace_capacity:
  assumes "Emplace T p x (v, e) = (res, v', e')"
  shows "Capacity v \<le> Capacity v'"
proof (cases "p \<le> m_size v")
  case False
  with assms show ?thesis by (simp add: Emplace_def)
next
  case True
  note ple = this
  show ?thesis
  proof (cases "p = m_size v")
    case True
    with assms have "EmplaceBack T x (v, e) = (res, v', e')" by (simp add: Emplace_def)
    then show ?thesis by (rule EmplaceBack_capacity)
  next
    case False
    with ple have pl: "p < m_size v" by simp
    show ?thesis
    proof (cases "m_size v = Capacity v")
      case False
      with assms pl show ?thesis
        by (auto simp: Emplace_def Let_def split: option.splits prod.splits)
    next
      case True
      show ?thesis
      proof (cases res)
        case (Inr i)
        from Emplace_middle_grow_returns [OF pl True assms [unfolded Inr]]
        have g: "m_size v \<le> grown_capacity v" .
        from assms pl True Inr have "Capacity v' = grown_capacity v"
          by (auto simp: Emplace_def Let_def Capacity_def
              split: option.splits prod.splits failure.splits if_splits
              dest!: swap_in_capacity RawMemory_ctor_capacity)
        with g True show ?thesis by simp
      next
        case (Inl f)
        with assms pl True have "Capacity v' = Capacity v"
          by (auto simp: Emplace_def Let_def Capacity_def with_slots_def
              split: option.splits prod.splits failure.splits if_splits)
        then show ?thesis by simp
      qed
    qed
  qed
qed

lemma Vector_copy_ctor_capacity:
  "Vector_copy_ctor T other e = (Inr v, e') \<Longrightarrow> Capacity v = m_size other"
  by (auto simp: Vector_copy_ctor_def Capacity_def
      split: option.splits prod.splits failure.splits dest!: RawMemory_ctor_capacity)

lemma assign_copy_capacity:
  assumes "assign_copy T this rhs e = (res, this', e')"
  shows "Capacity this \<le> Capacity this'"
proof (cases "m_capacity (m_data this) < m_size rhs")
  case True
  obtain r e1 where vc: "Vector_copy_ctor T rhs e = (r, e1)" by (cases "Vector_copy_ctor T rhs e")
  show ?thesis
  proof (cases r)
    case (Inl f)
    with assms True vc show ?thesis by (simp add: assign_copy_def)
  next
    case (Inr rhs_copy)
    with vc have "Capacity rhs_copy = m_size rhs" by (simp add: Vector_copy_ctor_capacity)
    with assms True vc Inr show ?thesis
      by (auto simp: assign_copy_def Swap_def RawMemory_Swap_def Capacity_def
          split: option.splits prod.splits)
  qed
next
  case False
  with assms show ?thesis
    by (auto simp: assign_copy_def split: if_splits option.splits prod.splits)
qed

lemma capacity_not_decreasedI:
  "(\<And>v e res v' e'. f (v, e) = (res, v', e') \<Longrightarrow> Capacity v \<le> Capacity v') \<Longrightarrow>
   capacity_not_decreased f"
  unfolding capacity_not_decreased_def
proof (intro allI)
  fix v e
  assume a: "\<And>v e res v' e'. f (v, e) = (res, v', e') \<Longrightarrow> Capacity v \<le> Capacity v'"
  obtain res v' e' where "f (v, e) = (res, v', e')" by (cases "f (v, e)")
  with a [OF this] show "Capacity v \<le> Capacity (fst (snd (f (v, e))))" by simp
qed

section \<open>Move construction\<close>

text \<open>
  C3, as the claim states it, fails: the claim leaves the capacity of the source unchanged, but
  \<open>RawMemory::Swap\<close> exchanges \<open>capacity_\<close> together with \<open>buffer_\<close>, so a source of capacity 1
  has capacity 0 after the move.
\<close>

theorem Vector_move_ctor_capacity_counterexample:
  "Vector_move_ctor
     (\<lparr>m_data = \<lparr>m_buffer = [Some (Val (5::nat))], m_capacity = 1\<rparr>, m_size = 1\<rparr>,
      \<lparr>faults = [], news = 1, deletes = 0, leaked = 0\<rparr>)
   = (Inr \<lparr>m_data = \<lparr>m_buffer = [Some (Val 5)], m_capacity = 1\<rparr>, m_size = 1\<rparr>,
      \<lparr>m_data = \<lparr>m_buffer = [], m_capacity = 0\<rparr>, m_size = 0\<rparr>,
      \<lparr>faults = [], news = 1, deletes = 0, leaked = 0\<rparr>) \<and>
   Capacity \<lparr>m_data = \<lparr>m_buffer = [], m_capacity = 0\<rparr>, m_size = 0\<rparr>
     \<noteq> Capacity \<lparr>m_data = \<lparr>m_buffer = [Some (Val (5::nat))], m_capacity = 1\<rparr>, m_size = 1\<rparr>"
  by (simp add: Vector_move_ctor_def Swap_def Vector_default_def raw_defs Capacity_def)

text \<open>
  C3, amended. Move-constructing \<open>B\<close> from any vector \<open>A\<close> always returns, and the environment
  is the same afterwards: nothing was allocated and no constructor or assignment of \<open>T\<close> ran.
  \<open>B\<close> has the block of \<open>A\<close> with all its slots, hence the elements of \<open>A\<close> in their order, and
  the size and the capacity of \<open>A\<close>. \<open>A\<close> is left with the null block, size 0 and capacity 0.
\<close>

theorem Vector_move_ctor_spec:
  "\<exists>B A'. Vector_move_ctor (A, e) = (Inr B, A', e) \<and>
     slots B = slots A \<and> elements B = elements A \<and> Size B = Size A \<and> Capacity B = Capacity A \<and>
     slots A' = [] \<and> elements A' = [] \<and> Size A' = 0 \<and> Capacity A' = 0"
  by (simp add: Vector_move_ctor_def Swap_def Vector_default_def elements_def raw_defs vec_defs)

section \<open>Self-assignment\<close>

text \<open>
  C7. \<open>a = a\<close>, the copy assignment whose two operands have the same address, returns and
  leaves the whole store (so the elements, the size and the capacity of \<open>a\<close>) and the
  environment exactly as they were.
\<close>

theorem copy_assignment_self:
  "copy_assignment T a a (h, e) = (Inr (), h, e)"
  by (simp add: copy_assignment_def)

section \<open>Failures while a full vector grows\<close>

text \<open>
  C1 does not hold of the code. \<open>T\<close> is copied (its move constructor may throw), the vector
  \<open>[1]\<close> is full, the allocation and the construction of the new element 9 succeed and the
  copy of the old element throws. The vector is unchanged, but \<open>EmplaceBack\<close> has no handler:
  the block that holds the new element is given back with the element still alive
  (\<open>leaked\<close> goes from 0 to 1).
\<close>

theorem EmplaceBack_leaks_new_element:
  "EmplaceBack \<lparr>nothrow_move_constructible = False, copy_constructible = True,
                 nothrow_move_assignable = False, value_initialized = 0\<rparr> (9::nat)
     (\<lparr>m_data = \<lparr>m_buffer = [Some (Val 1)], m_capacity = 1\<rparr>, m_size = 1\<rparr>,
      \<lparr>faults = [False, False, True], news = 1, deletes = 0, leaked = 0\<rparr>)
   = (Inl (Raised Element_error),
      \<lparr>m_data = \<lparr>m_buffer = [Some (Val 1)], m_capacity = 1\<rparr>, m_size = 1\<rparr>,
      \<lparr>faults = [], news = 2, deletes = 1, leaked = 1\<rparr>)"
  by (simp add: EmplaceBack_def T_defs slot_defs raw_defs vec_defs replicate_2)

text \<open>
  C2 does not hold of the code either. The vector \<open>[1, 2]\<close> is full, 9 is inserted at
  position 1, and the copy of the suffix element 2 throws. \<open>MoveOrCopy\<close> has destroyed the old
  prefix as soon as it was transferred: the exception leaves the vector with size 2 and its
  slot 0 destroyed. Nothing leaks from the new block.
\<close>

theorem Emplace_destroys_old_prefix:
  "Emplace \<lparr>nothrow_move_constructible = False, copy_constructible = True,
             nothrow_move_assignable = False, value_initialized = 0\<rparr> 1 (9::nat)
     (\<lparr>m_data = \<lparr>m_buffer = [Some (Val 1), Some (Val 2)], m_capacity = 2\<rparr>, m_size = 2\<rparr>,
      \<lparr>faults = [False, False, False, True], news = 1, deletes = 0, leaked = 0\<rparr>)
   = (Inl (Raised Element_error),
      \<lparr>m_data = \<lparr>m_buffer = [None, Some (Val 2)], m_capacity = 2\<rparr>, m_size = 2\<rparr>,
      \<lparr>faults = [], news = 2, deletes = 1, leaked = 0\<rparr>)"
  by (simp add: Emplace_def T_defs slot_defs raw_defs vec_defs replicate_4)

section \<open>Removing from the end\<close>

text \<open>
  C8. On a vector that satisfies the invariant \<open>PopBack\<close> always returns: it raises nothing
  and touches neither the allocator nor any constructor. With \<open>size > 0\<close> it destroys the
  object in slot \<open>size - 1\<close> (the slot is raw afterwards), leaves every other slot and the
  capacity as they were and decrements the size; on an empty vector it changes nothing.
\<close>

theorem PopBack_spec:
  assumes "vector_ok v"
  shows "\<exists>v'. PopBack (v, e) = (Inr (), v', e) \<and>
           Capacity v' = Capacity v \<and>
           (if m_size v > 0
            then m_size v' = m_size v - 1 \<and>
                 slots v' = (slots v)[m_size v - 1 := None] \<and>
                 elements v' = butlast (elements v)
            else v' = v)"
proof (cases "m_size v > 0")
  case False
  then show ?thesis by (simp add: PopBack_def)
next
  case True
  from assms have len: "length (slots v) = Capacity v" and le: "m_size v \<le> Capacity v"
    and live: "\<forall>i<m_size v. slots v ! i \<noteq> None"
    by (simp_all add: vector_ok_nth)
  from True le len live have d: "destroy_at (slots v) (m_size v - 1) = Some ((slots v)[m_size v - 1 := None])"
    by (simp add: destroy_at_def)
  have el: "elements (with_slots v ((slots v)[m_size v - 1 := None])\<lparr>m_size := m_size v - 1\<rparr>)
              = butlast (elements v)"
    using True le len
    by (simp add: elements_def with_slots_def slots_def butlast_take map_butlast [symmetric]
        min_def)
  show ?thesis using True d el
    by (simp add: PopBack_def Capacity_def with_slots_def slots_def)
qed

theorem PopBack_spec_witness:
  "vector_ok \<lparr>m_data = \<lparr>m_buffer = [Some (Val (7::nat)), None], m_capacity = 2\<rparr>, m_size = 1\<rparr> \<and>
   PopBack (\<lparr>m_data = \<lparr>m_buffer = [Some (Val (7::nat)), None], m_capacity = 2\<rparr>, m_size = 1\<rparr>,
            \<lparr>faults = [True], news = 1, deletes = 0, leaked = 0\<rparr>)
     = (Inr (), \<lparr>m_data = \<lparr>m_buffer = [None, None], m_capacity = 2\<rparr>, m_size = 0\<rparr>,
        \<lparr>faults = [True], news = 1, deletes = 0, leaked = 0\<rparr>)"
proof -
  have ok: "vector_ok \<lparr>m_data = \<lparr>m_buffer = [Some (Val (7::nat)), None], m_capacity = 2\<rparr>, m_size = 1\<rparr>"
    by (simp add: vector_ok_def size_t_range_def)
  from PopBack_spec [OF ok, of "\<lparr>faults = [True], news = 1, deletes = 0, leaked = 0\<rparr>"]
  show ?thesis using ok
    by (auto simp: slots_def with_slots_def PopBack_def destroy_at_def)
qed

section \<open>Appending to a vector that has room\<close>

text \<open>
  C9. On a vector that satisfies the invariant and has \<open>size < capacity\<close>, \<open>EmplaceBack\<close> (and
  \<open>PushBack\<close>, which forwards to it) only consults the constructor of the new element. If the
  constructor throws, the vector is unchanged. Otherwise, and always when nothing throws, it
  returns the index \<open>size\<close>: the new element is constructed in slot \<open>size\<close>, every other slot
  (so every element at an index in \<open>[0, size)\<close>) is as before, the capacity is unchanged and
  the size is one more. No block is obtained or given back.
\<close>

theorem EmplaceBack_in_place:
  assumes "vector_ok v" and "m_size v < Capacity v"
  shows "\<exists>res v' e'. EmplaceBack T x (v, e) = (res, v', e') \<and>
           PushBack T x (v, e) = (map_sum id (\<lambda>t. ()) res, v', e') \<and>
           only_faults_used e e' \<and>
           (faults e = [] \<longrightarrow> res = Inr (m_size v)) \<and>
           (case res of
              Inr t \<Rightarrow> t = m_size v \<and> vector_ok v' \<and> Capacity v' = Capacity v \<and>
                       m_size v' = m_size v + 1 \<and>
                       slots v' = (slots v)[m_size v := Some (Val x)] \<and>
                       take (m_size v) (slots v') = take (m_size v) (slots v) \<and>
                       elements v' = elements v @ [Val x]
            | Inl f \<Rightarrow> f = Raised Element_error \<and> v' = v)"
proof -
  from EmplaceBack_in_place_cases [OF assms, of e T x]
  obtain e' where q: "only_faults_used e e'"
    and alt: "EmplaceBack T x (v, e) = (Inl (Raised Element_error), v, e') \<and> faults e \<noteq> []
      \<or> (\<exists>v'. EmplaceBack T x (v, e) = (Inr (m_size v), v', e') \<and> vector_ok v' \<and>
            Capacity v' = Capacity v \<and> m_size v' = m_size v + 1 \<and>
            slots v' = (slots v)[m_size v := Some (Val x)] \<and>
            elements v' = elements v @ [Val x])"
    by blast
  from alt show ?thesis
  proof
    assume "EmplaceBack T x (v, e) = (Inl (Raised Element_error), v, e') \<and> faults e \<noteq> []"
    with q show ?thesis by (simp add: PushBack_def)
  next
    assume "\<exists>v'. EmplaceBack T x (v, e) = (Inr (m_size v), v', e') \<and> vector_ok v' \<and>
            Capacity v' = Capacity v \<and> m_size v' = m_size v + 1 \<and>
            slots v' = (slots v)[m_size v := Some (Val x)] \<and>
            elements v' = elements v @ [Val x]"
    then obtain v' where "EmplaceBack T x (v, e) = (Inr (m_size v), v', e')" "vector_ok v'"
      "Capacity v' = Capacity v" "m_size v' = m_size v + 1"
      "slots v' = (slots v)[m_size v := Some (Val x)]" "elements v' = elements v @ [Val x]"
      by blast
    with q show ?thesis by (simp add: PushBack_def)
  qed
qed

theorem EmplaceBack_in_place_witness:
  "vector_ok \<lparr>m_data = \<lparr>m_buffer = [Some (Val (7::nat)), None], m_capacity = 2\<rparr>, m_size = 1\<rparr> \<and>
   m_size \<lparr>m_data = \<lparr>m_buffer = [Some (Val (7::nat)), None], m_capacity = 2\<rparr>, m_size = 1\<rparr>
     < Capacity \<lparr>m_data = \<lparr>m_buffer = [Some (Val (7::nat)), None], m_capacity = 2\<rparr>, m_size = 1\<rparr> \<and>
   EmplaceBack \<lparr>nothrow_move_constructible = False, copy_constructible = True,
                 nothrow_move_assignable = False, value_initialized = 0\<rparr> 9
     (\<lparr>m_data = \<lparr>m_buffer = [Some (Val 7), None], m_capacity = 2\<rparr>, m_size = 1\<rparr>,
      \<lparr>faults = [], news = 1, deletes = 0, leaked = 0\<rparr>)
   = (Inr 1, \<lparr>m_data = \<lparr>m_buffer = [Some (Val 7), Some (Val 9)], m_capacity = 2\<rparr>, m_size = 2\<rparr>,
      \<lparr>faults = [], news = 1, deletes = 0, leaked = 0\<rparr>)"
proof -
  let ?v = "\<lparr>m_data = \<lparr>m_buffer = [Some (Val (7::nat)), None], m_capacity = 2\<rparr>, m_size = 1\<rparr>"
  have ok: "vector_ok ?v" by (simp add: vector_ok_def size_t_range_def)
  have lt: "m_size ?v < Capacity ?v" by (simp add: Capacity_def)
  from EmplaceBack_in_place [OF ok lt,
      of "\<lparr>nothrow_move_constructible = False, copy_constructible = True,
            nothrow_move_assignable = False, value_initialized = 0\<rparr>" 9
         "\<lparr>faults = [], news = 1, deletes = 0, leaked = 0\<rparr>"]
  show ?thesis using ok lt
    by (auto simp: EmplaceBack_def T_defs slot_defs raw_defs Capacity_def slots_def with_slots_def)
qed

section \<open>Erasing\<close>

text \<open>
  C10. On a vector that satisfies the invariant, \<open>Erase\<close> at the index \<open>p\<close> of a live element
  returns whenever the move assignment of \<open>T\<close> does not throw. When it returns, the iterator it
  returns has the index \<open>p\<close> again: it points to the element that followed the erased one,
  or, when the last element was erased, to the new end.
\<close>

theorem Erase_returns_following:
  assumes "vector_ok v" and "p < m_size v"
  shows "\<exists>res v' e'. Erase T p (v, e) = (res, v', e') \<and>
           (nothrow_move_assignable T \<or> faults e = [] \<longrightarrow> res = Inr p) \<and>
           (\<forall>j. res = Inr j \<longrightarrow>
              j = p \<and> vector_ok v' \<and> m_size v' = m_size v - 1 \<and>
              elements v' = take p (elements v) @ drop (Suc p) (elements v) \<and>
              (if Suc p < m_size v then j < m_size v' \<and> elements v' ! j = elements v ! Suc p
               else j = m_size v'))"
proof -
  from Erase_cases [OF assms, of T e]
  obtain res v' e' where er: "Erase T p (v, e) = (res, v', e')"
    and c: "case res of
       Inr j \<Rightarrow> j = p \<and> vector_ok v' \<and> Capacity v' = Capacity v \<and>
                m_size v' = m_size v - 1 \<and>
                elements v' = take p (elements v) @ drop (Suc p) (elements v)
     | Inl f \<Rightarrow> f = Raised Element_error \<and> faults e \<noteq> [] \<and> \<not> nothrow_move_assignable T"
    by blast
  have lx: "length (elements v) = m_size v" using assms(1) by (rule vector_ok_length_elements)
  show ?thesis
  proof (cases res)
    case (Inl f)
    with er c show ?thesis by auto
  next
    case (Inr j)
    with c have j: "j = p" and ok': "vector_ok v'" and sz: "m_size v' = m_size v - 1"
      and el: "elements v' = take p (elements v) @ drop (Suc p) (elements v)"
      by simp_all
    have "elements v' ! p = elements v ! Suc p" if "Suc p < m_size v"
      using that lx unfolding el by (simp add: nth_append min_def)
    with er Inr j ok' sz el assms(2) show ?thesis by auto
  qed
qed

theorem Erase_returns_following_witness:
  "vector_ok \<lparr>m_data = \<lparr>m_buffer = [Some (Val (1::nat)), Some (Val 2), Some (Val 3)],
                         m_capacity = 3\<rparr>, m_size = 3\<rparr> \<and>
   Erase \<lparr>nothrow_move_constructible = False, copy_constructible = True,
           nothrow_move_assignable = False, value_initialized = 0\<rparr> 1
     (\<lparr>m_data = \<lparr>m_buffer = [Some (Val 1), Some (Val 2), Some (Val 3)], m_capacity = 3\<rparr>,
        m_size = 3\<rparr>,
      \<lparr>faults = [], news = 1, deletes = 0, leaked = 0\<rparr>)
   = (Inr 1, \<lparr>m_data = \<lparr>m_buffer = [Some (Val 1), Some (Val 3), None], m_capacity = 3\<rparr>,
               m_size = 2\<rparr>,
      \<lparr>faults = [], news = 1, deletes = 0, leaked = 0\<rparr>) \<and>
   elements \<lparr>m_data = \<lparr>m_buffer = [Some (Val (1::nat)), Some (Val 3), None], m_capacity = 3\<rparr>,
              m_size = 2\<rparr> ! 1 = Val 3"
proof -
  let ?v = "\<lparr>m_data = \<lparr>m_buffer = [Some (Val (1::nat)), Some (Val 2), Some (Val 3)],
                         m_capacity = 3\<rparr>, m_size = 3\<rparr>"
  have ok: "vector_ok ?v" by (simp add: vector_ok_def size_t_range_def)
  have lt: "1 < m_size ?v" by simp
  have s3: "(3::nat) - Suc (Suc 0) = Suc 0" by simp
  from Erase_returns_following [OF ok lt,
      of "\<lparr>nothrow_move_constructible = False, copy_constructible = True,
            nothrow_move_assignable = False, value_initialized = 0\<rparr>"
         "\<lparr>faults = [], news = 1, deletes = 0, leaked = 0\<rparr>"]
  show ?thesis using ok
    by (auto simp: Erase_def PopBack_def std_move_def T_defs slot_defs slots_def with_slots_def
        elements_def s3)
qed

section \<open>Inserting and erasing again\<close>

text \<open>
  C6. On a vector that satisfies the invariant and for every position \<open>p\<close> in \<open>[0, size]\<close>,
  \<open>Insert\<close> returns when nothing throws (and twice the size fits \<open>size_t\<close>). When it returns,
  the iterator has index \<open>p\<close>, the elements are those before with the new one at index \<open>p\<close>
  and the later ones shifted right by one, and the size is one more. \<open>Erase\<close> at \<open>p\<close> on the
  result, in any environment, returns when the move assignment does not throw, and when it
  returns the elements and the size are the original ones.
\<close>

theorem Insert_then_Erase:
  assumes "vector_ok v" and "p \<le> m_size v"
  shows "\<exists>res v' e'. Insert T p x (v, e) = (res, v', e') \<and>
           (faults e = [] \<and> m_size v < 2 ^ 63 \<longrightarrow> res = Inr p) \<and>
           (\<forall>i. res = Inr i \<longrightarrow>
              i = p \<and> vector_ok v' \<and> m_size v' = m_size v + 1 \<and>
              elements v' = take p (elements v) @ [Val x] @ drop p (elements v) \<and>
              (\<forall>e1. \<exists>res' v'' e''. Erase T p (v', e1) = (res', v'', e'') \<and>
                 (nothrow_move_assignable T \<or> faults e1 = [] \<longrightarrow> res' = Inr p) \<and>
                 (\<forall>j. res' = Inr j \<longrightarrow>
                    j = p \<and> elements v'' = elements v \<and> m_size v'' = m_size v)))"
proof -
  from Emplace_cases [OF assms, of T x e]
  obtain res v' e' where em: "Emplace T p x (v, e) = (res, v', e')"
    and c: "case res of
       Inr t \<Rightarrow> t = p \<and> vector_ok v' \<and> m_size v' = m_size v + 1 \<and>
                elements v' = take p (elements v) @ [Val x] @ drop p (elements v) \<and>
                Capacity v' = (if m_size v = Capacity v then max 1 (2 * Capacity v)
                               else Capacity v)
     | Inl f \<Rightarrow> \<not> m_size v < 2 ^ 63 \<or>
                (f = Raised Bad_alloc \<or> f = Raised Element_error) \<and> faults e \<noteq> []"
    by blast
  have lx: "length (elements v) = m_size v" using assms(1) by (rule vector_ok_length_elements)
  show ?thesis
  proof (cases res)
    case (Inl f)
    with em c show ?thesis by (auto simp: Insert_def)
  next
    case (Inr i)
    with c have i: "i = p" and ok': "vector_ok v'" and sz: "m_size v' = m_size v + 1"
      and el: "elements v' = take p (elements v) @ [Val x] @ drop p (elements v)"
      by simp_all
    have pl: "p < m_size v'" using assms(2) sz by simp
    have tk: "take p (elements v') @ drop (Suc p) (elements v') = elements v"
      unfolding el using lx assms(2) by simp
    have er: "\<exists>res' v'' e''. Erase T p (v', e1) = (res', v'', e'') \<and>
                 (nothrow_move_assignable T \<or> faults e1 = [] \<longrightarrow> res' = Inr p) \<and>
                 (\<forall>j. res' = Inr j \<longrightarrow>
                    j = p \<and> elements v'' = elements v \<and> m_size v'' = m_size v)" for e1
    proof -
      from Erase_cases [OF ok' pl, of T e1]
      obtain res' v'' e'' where e: "Erase T p (v', e1) = (res', v'', e'')"
        and c': "case res' of
           Inr j \<Rightarrow> j = p \<and> vector_ok v'' \<and> Capacity v'' = Capacity v' \<and>
                    m_size v'' = m_size v' - 1 \<and>
                    elements v'' = take p (elements v') @ drop (Suc p) (elements v')
         | Inl f \<Rightarrow> f = Raised Element_error \<and> faults e1 \<noteq> [] \<and> \<not> nothrow_move_assignable T"
        by blast
      from c' tk sz show ?thesis unfolding e by (cases res') auto
    qed
    from em Inr i ok' sz el er show ?thesis by (auto simp: Insert_def)
  qed
qed

theorem Insert_then_Erase_witness:
  "vector_ok \<lparr>m_data = \<lparr>m_buffer = [Some (Val (1::nat)), Some (Val 2), Some (Val 3), None],
                         m_capacity = 4\<rparr>, m_size = 3\<rparr> \<and>
   Insert \<lparr>nothrow_move_constructible = False, copy_constructible = True,
            nothrow_move_assignable = False, value_initialized = 0\<rparr> 1 (9::nat)
     (\<lparr>m_data = \<lparr>m_buffer = [Some (Val 1), Some (Val 2), Some (Val 3), None], m_capacity = 4\<rparr>,
        m_size = 3\<rparr>,
      \<lparr>faults = [], news = 1, deletes = 0, leaked = 0\<rparr>)
   = (Inr 1,
      \<lparr>m_data = \<lparr>m_buffer = [Some (Val 1), Some (Val 9), Some (Val 2), Some (Val 3)],
                  m_capacity = 4\<rparr>, m_size = 4\<rparr>,
      \<lparr>faults = [], news = 1, deletes = 0, leaked = 0\<rparr>) \<and>
   Erase \<lparr>nothrow_move_constructible = False, copy_constructible = True,
           nothrow_move_assignable = False, value_initialized = 0::nat\<rparr> 1
     (\<lparr>m_data = \<lparr>m_buffer = [Some (Val 1), Some (Val 9), Some (Val 2), Some (Val 3)],
                  m_capacity = 4\<rparr>, m_size = 4\<rparr>,
      \<lparr>faults = [], news = 1, deletes = 0, leaked = 0\<rparr>)
   = (Inr 1,
      \<lparr>m_data = \<lparr>m_buffer = [Some (Val 1), Some (Val 2), Some (Val 3), None],
                  m_capacity = 4\<rparr>, m_size = 3\<rparr>,
      \<lparr>faults = [], news = 1, deletes = 0, leaked = 0\<rparr>)"
proof -
  let ?v = "\<lparr>m_data = \<lparr>m_buffer = [Some (Val (1::nat)), Some (Val 2), Some (Val 3), None],
                         m_capacity = 4\<rparr>, m_size = 3\<rparr>"
  have ok: "vector_ok ?v" by (simp add: vector_ok_def size_t_range_def)
  have le: "1 \<le> m_size ?v" by simp
  have ar: "(3::nat) - Suc 0 = Suc (Suc 0)" "(2::nat) - Suc 0 = Suc 0"
    "(4::nat) - Suc (Suc 0) = Suc (Suc 0)" "(3::nat) = Suc (Suc (Suc 0))"
    by simp_all
  from Insert_then_Erase [OF ok le,
      of "\<lparr>nothrow_move_constructible = False, copy_constructible = True,
            nothrow_move_assignable = False, value_initialized = 0\<rparr>" 9
         "\<lparr>faults = [], news = 1, deletes = 0, leaked = 0\<rparr>"]
  show ?thesis using ok
    by (auto simp: Insert_def Emplace_def Erase_def PopBack_def std_move_def std_move_backward_def
        T_defs slot_defs raw_defs Capacity_def slots_def with_slots_def ar)
qed

section \<open>Copy construction\<close>

text \<open>
  C5. \<open>B\<close> is copy-constructed from the vector object \<open>A\<close>, which satisfies the invariant, in
  a heap where blocks have addresses; \<open>a\<close> is the free address that \<open>operator new\<close> returns if
  it is called. No block of the heap is changed, so \<open>A\<close> is never mutated, and when nothing
  throws the construction returns. When it returns, \<open>B\<close> has capacity exactly \<open>Size A\<close>,
  \<open>Size B = Size A\<close> and the elements of \<open>B\<close> are those of \<open>A\<close> in order; one block was obtained,
  unless \<open>A\<close> is empty and \<open>B\<close> has the null block. The block of \<open>B\<close> is the new one at \<open>a\<close>, not
  the block of \<open>A\<close>. Hence \<open>B\<close> is independent of \<open>A\<close>: whatever is written to, or given back
  at, the address of the block of \<open>A\<close>, or allocated at a free address, \<open>B\<close> denotes the same
  vector; in particular after \<open>A[i] = x\<close>, which does change the elements of \<open>A\<close>, after
  \<open>A.PopBack()\<close> and after \<open>A.EmplaceBack(x)\<close>, also when it reallocates. When the allocation
  fails, nothing was obtained. When a copy constructor throws, the heap is as before: the
  block that was obtained has been given back, with no live object in it (nothing leaked).
\<close>

theorem Vector_copy_ctor_independent:
  fixes A :: Vector_object and h :: "'a heap"
  assumes "h 0 = None" and "a \<noteq> 0" and "h a = None" and "vector_ok (vector_at h A)"
  shows "\<exists>res h' e'. Vector_copy_ctor_at T a A (h, e) = (res, h', e') \<and>
           (\<forall>c. c \<noteq> a \<longrightarrow> h' c = h c) \<and> vector_at h' A = vector_at h A \<and>
           leaked e' = leaked e \<and>
           (faults e = [] \<longrightarrow> (\<exists>B. res = Inr B)) \<and>
           (case res of
              Inr B \<Rightarrow>
                vector_ok (vector_at h' B) \<and>
                Capacity (vector_at h' B) = Size (vector_at h A) \<and>
                Size (vector_at h' B) = Size (vector_at h A) \<and>
                elements (vector_at h' B) = elements (vector_at h A) \<and>
                news e' = news e + (if Size (vector_at h A) = 0 then 0 else 1) \<and>
                deletes e' = deletes e \<and>
                p_buffer B = (if Size (vector_at h A) = 0 then 0 else a) \<and>
                (Size (vector_at h A) \<noteq> 0 \<longrightarrow> p_buffer B \<noteq> p_buffer A) \<and>
                (\<forall>h2. only_through (p_buffer A) h' h2 \<longrightarrow> vector_at h2 B = vector_at h' B) \<and>
                (\<forall>i x e1. \<exists>res1 h1 e2.
                   index_assign A i x (h', e1) = (res1, h1, e2) \<and>
                   vector_at h1 B = vector_at h' B \<and>
                   (res1 = Inr () \<longrightarrow>
                      elements (vector_at h1 A) = (elements (vector_at h' A))[i := Val x])) \<and>
                (\<forall>e1. \<exists>res1 A1 h1 e2.
                   PopBack_at A (h', e1) = (res1, A1, h1, e2) \<and>
                   vector_at h1 B = vector_at h' B \<and>
                   PopBack (vector_at h' A, e1) = (res1, vector_at h1 A1, e2)) \<and>
                (\<forall>a1 x e1. a1 \<noteq> 0 \<and> h' a1 = None \<longrightarrow>
                   (\<exists>res1 A1 h1 e2.
                      EmplaceBack_at T a1 x A (h', e1) = (res1, A1, h1, e2) \<and>
                      vector_at h1 B = vector_at h' B))
            | Inl f \<Rightarrow>
                h' = h \<and>
                (f = Raised Bad_alloc \<and> news e' = news e \<and> deletes e' = deletes e \<or>
                 f = Raised Element_error \<and> news e' = news e + 1 \<and>
                   deletes e' = deletes e + 1))"
proof -
  from Vector_copy_ctor_at_cases [OF assms, of T e]
  obtain res h' e' where cc: "Vector_copy_ctor_at T a A (h, e) = (res, h', e')"
    and fr: "\<forall>c. c \<noteq> a \<longrightarrow> h' c = h c" and k: "leaked e' = leaked e"
    and c: "case res of
       Inr B \<Rightarrow> vector_ok (vector_at h' B) \<and> Capacity (vector_at h' B) = p_size A \<and>
                p_size B = p_size A \<and>
                elements (vector_at h' B) = elements (vector_at h A) \<and>
                news e' = news e + (if p_size A = 0 then 0 else 1) \<and> deletes e' = deletes e \<and>
                p_buffer B = (if p_size A = 0 then 0 else a) \<and>
                (p_size A \<noteq> 0 \<longrightarrow> h' a \<noteq> None \<and> h (p_buffer A) \<noteq> None)
     | Inl f \<Rightarrow> faults e \<noteq> [] \<and> h' = h \<and>
                (f = Raised Bad_alloc \<and> news e' = news e \<and> deletes e' = deletes e \<or>
                 f = Raised Element_error \<and> news e' = news e + 1 \<and>
                   deletes e' = deletes e + 1)"
    by blast
  have nul': "h' 0 = None" using fr assms(1,2) by simp
  have sA: "Size (vector_at h A) = p_size A" by (simp add: Size_def vector_at_def)
  show ?thesis
  proof (cases res)
    case (Inl f)
    with cc c k fr show ?thesis by auto
  next
    case (Inr B)
    with c have okB: "vector_ok (vector_at h' B)"
      and cp: "Capacity (vector_at h' B) = p_size A" and sz: "p_size B = p_size A"
      and el: "elements (vector_at h' B) = elements (vector_at h A)"
      and nw: "news e' = news e + (if p_size A = 0 then 0 else 1)"
      and dl: "deletes e' = deletes e"
      and pb: "p_buffer B = (if p_size A = 0 then 0 else a)"
      and al: "p_size A \<noteq> 0 \<longrightarrow> h' a \<noteq> None \<and> h (p_buffer A) \<noteq> None"
      by simp_all
    have ne: "p_size A \<noteq> 0 \<longrightarrow> p_buffer B \<noteq> p_buffer A"
      using pb al assms(3) by auto
    have Aeq: "vector_at h' A = vector_at h A"
    proof (cases "p_buffer A = a")
      case False
      with fr show ?thesis by (simp add: vector_at_def block_at_def)
    next
      case True
      with al assms(3) have "p_size A = 0" by auto
      with cc Inr assms(1) have "h' = h"
        by (simp add: Vector_copy_ctor_at_def Allocate_at_def put_block_def)
      then show ?thesis by simp
    qed
    have alloc: "h' (p_buffer B) \<noteq> None \<or> p_buffer B = 0" using pb al by auto
    have dist: "p_buffer B \<noteq> p_buffer A \<or> h' (p_buffer B) = None"
      using pb ne nul' by auto
    have indep: "vector_at h2 B = vector_at h' B" if "only_through (p_buffer A) h' h2" for h2
    proof (cases "p_buffer B = p_buffer A")
      case False
      from only_through_vector_at [OF that False nul' alloc] show ?thesis .
    next
      case True
      with dist alloc have z: "p_buffer B = 0" by auto
      with that nul' show ?thesis by (simp add: vector_at_def block_at_def only_through_def)
    qed
    have m1: "\<exists>res1 h1 e2. index_assign A i x (h', e1) = (res1, h1, e2) \<and>
                   vector_at h1 B = vector_at h' B \<and>
                   (res1 = Inr () \<longrightarrow>
                      elements (vector_at h1 A) = (elements (vector_at h' A))[i := Val x])"
      for i x e1
    proof -
      obtain res1 h1 e2 where ia: "index_assign A i x (h', e1) = (res1, h1, e2)"
        by (cases "index_assign A i x (h', e1)")
      from index_assign_only_through [OF ia nul'] have "vector_at h1 B = vector_at h' B"
        by (rule indep)
      moreover have "elements (vector_at h1 A) = (elements (vector_at h' A))[i := Val x]"
        if "res1 = Inr ()" using index_assign_elements [OF ia [unfolded that]] .
      ultimately show ?thesis using ia by simp
    qed
    have m2: "\<exists>res1 A1 h1 e2. PopBack_at A (h', e1) = (res1, A1, h1, e2) \<and>
                   vector_at h1 B = vector_at h' B \<and>
                   PopBack (vector_at h' A, e1) = (res1, vector_at h1 A1, e2)" for e1
    proof -
      obtain res1 A1 h1 e2 where pa: "PopBack_at A (h', e1) = (res1, A1, h1, e2)"
        by (cases "PopBack_at A (h', e1)")
      from PopBack_at_only_through [OF pa nul'] have "vector_at h1 B = vector_at h' B"
        by (rule indep)
      with pa PopBack_at_refines [OF pa] show ?thesis by simp
    qed
    have m3: "\<exists>res1 A1 h1 e2. EmplaceBack_at T a1 x A (h', e1) = (res1, A1, h1, e2) \<and>
                      vector_at h1 B = vector_at h' B"
      if "a1 \<noteq> 0 \<and> h' a1 = None" for a1 x e1
    proof -
      obtain res1 A1 h1 e2 where ea: "EmplaceBack_at T a1 x A (h', e1) = (res1, A1, h1, e2)"
        by (cases "EmplaceBack_at T a1 x A (h', e1)")
      from that have "a1 \<noteq> 0" "h' a1 = None" by simp_all
      from EmplaceBack_at_only_through [OF ea nul' this]
      have "vector_at h1 B = vector_at h' B" by (rule indep)
      with ea show ?thesis by simp
    qed
    have "Size (vector_at h' B) = p_size A" using sz by (simp add: Size_def vector_at_def)
    with cc Inr fr k okB cp el nw dl pb ne Aeq indep m1 m2 m3 sA show ?thesis
      by (simp del: fun_upd_apply)
  qed
qed

theorem Vector_copy_ctor_independent_witness:
  "(Map.empty(1 \<mapsto> [Some (Val (1::nat)), Some (Val 2), None])) (0::nat) = None \<and>
   (2::nat) \<noteq> 0 \<and>
   (Map.empty(1 \<mapsto> [Some (Val (1::nat)), Some (Val 2), None])) (2::nat) = None \<and>
   vector_ok (vector_at (Map.empty(1 \<mapsto> [Some (Val (1::nat)), Some (Val 2), None]))
                \<lparr>p_buffer = 1, p_capacity = 3, p_size = 2\<rparr>) \<and>
   fst (Vector_copy_ctor_at
          \<lparr>nothrow_move_constructible = False, copy_constructible = True,
            nothrow_move_assignable = False, value_initialized = 0\<rparr>
          2 \<lparr>p_buffer = 1, p_capacity = 3, p_size = 2\<rparr>
          (Map.empty(1 \<mapsto> [Some (Val (1::nat)), Some (Val 2), None]),
           \<lparr>faults = [], news = 1, deletes = 0, leaked = 0\<rparr>))
     = Inr \<lparr>p_buffer = 2, p_capacity = 2, p_size = 2\<rparr> \<and>
   snd (snd (Vector_copy_ctor_at
          \<lparr>nothrow_move_constructible = False, copy_constructible = True,
            nothrow_move_assignable = False, value_initialized = 0\<rparr>
          2 \<lparr>p_buffer = 1, p_capacity = 3, p_size = 2\<rparr>
          (Map.empty(1 \<mapsto> [Some (Val (1::nat)), Some (Val 2), None]),
           \<lparr>faults = [], news = 1, deletes = 0, leaked = 0\<rparr>)))
     = \<lparr>faults = [], news = 2, deletes = 0, leaked = 0\<rparr> \<and>
   elements (vector_at
      (fst (snd (Vector_copy_ctor_at
          \<lparr>nothrow_move_constructible = False, copy_constructible = True,
            nothrow_move_assignable = False, value_initialized = 0\<rparr>
          2 \<lparr>p_buffer = 1, p_capacity = 3, p_size = 2\<rparr>
          (Map.empty(1 \<mapsto> [Some (Val (1::nat)), Some (Val 2), None]),
           \<lparr>faults = [], news = 1, deletes = 0, leaked = 0\<rparr>))))
      \<lparr>p_buffer = 2, p_capacity = 2, p_size = 2\<rparr>) = [Val 1, Val 2] \<and>
   fst (index_assign \<lparr>p_buffer = 1, p_capacity = 3, p_size = 2\<rparr> 0 7
      (fst (snd (Vector_copy_ctor_at
          \<lparr>nothrow_move_constructible = False, copy_constructible = True,
            nothrow_move_assignable = False, value_initialized = 0\<rparr>
          2 \<lparr>p_buffer = 1, p_capacity = 3, p_size = 2\<rparr>
          (Map.empty(1 \<mapsto> [Some (Val (1::nat)), Some (Val 2), None]),
           \<lparr>faults = [], news = 1, deletes = 0, leaked = 0\<rparr>))),
       \<lparr>faults = [], news = 2, deletes = 0, leaked = 0\<rparr>)) = Inr () \<and>
   elements (vector_at
      (fst (snd (index_assign \<lparr>p_buffer = 1, p_capacity = 3, p_size = 2\<rparr> 0 7
        (fst (snd (Vector_copy_ctor_at
          \<lparr>nothrow_move_constructible = False, copy_constructible = True,
            nothrow_move_assignable = False, value_initialized = 0\<rparr>
          2 \<lparr>p_buffer = 1, p_capacity = 3, p_size = 2\<rparr>
          (Map.empty(1 \<mapsto> [Some (Val (1::nat)), Some (Val 2), None]),
           \<lparr>faults = [], news = 1, deletes = 0, leaked = 0\<rparr>))),
         \<lparr>faults = [], news = 2, deletes = 0, leaked = 0\<rparr>))))
      \<lparr>p_buffer = 1, p_capacity = 3, p_size = 2\<rparr>) = [Val 7, Val 2] \<and>
   elements (vector_at
      (fst (snd (index_assign \<lparr>p_buffer = 1, p_capacity = 3, p_size = 2\<rparr> 0 7
        (fst (snd (Vector_copy_ctor_at
          \<lparr>nothrow_move_constructible = False, copy_constructible = True,
            nothrow_move_assignable = False, value_initialized = 0\<rparr>
          2 \<lparr>p_buffer = 1, p_capacity = 3, p_size = 2\<rparr>
          (Map.empty(1 \<mapsto> [Some (Val (1::nat)), Some (Val 2), None]),
           \<lparr>faults = [], news = 1, deletes = 0, leaked = 0\<rparr>))),
         \<lparr>faults = [], news = 2, deletes = 0, leaked = 0\<rparr>))))
      \<lparr>p_buffer = 2, p_capacity = 2, p_size = 2\<rparr>) = [Val 1, Val 2]"
proof -
  let ?blk = "[Some (Val (1::nat)), Some (Val 2), None]"
  let ?h = "Map.empty((1::nat) \<mapsto> ?blk)"
  let ?A = "\<lparr>p_buffer = 1, p_capacity = 3, p_size = 2\<rparr>"
  let ?B = "\<lparr>p_buffer = 2, p_capacity = 2, p_size = 2\<rparr>"
  let ?T = "\<lparr>nothrow_move_constructible = False, copy_constructible = True,
             nothrow_move_assignable = False, value_initialized = 0::nat\<rparr>"
  let ?e = "\<lparr>faults = [], news = 1, deletes = 0, leaked = 0\<rparr>"
  let ?e' = "\<lparr>faults = [], news = 2, deletes = 0, leaked = 0\<rparr>"
  let ?h' = "?h(2 \<mapsto> [Some (Val 1), Some (Val 2)])"
  let ?h1 = "?h'(1 \<mapsto> [Some (Val 7), Some (Val 2), None])"
  have nul: "?h 0 = None" by simp
  have ne: "(2::nat) \<noteq> 0" by simp
  have fresh: "?h 2 = None" by simp
  have ok: "vector_ok (vector_at ?h ?A)"
    by (simp add: vector_ok_def vector_at_def block_at_def size_t_range_def)
  have ev: "Vector_copy_ctor_at ?T 2 ?A (?h, ?e) = (Inr ?B, ?h', ?e')"
    by (simp add: Vector_copy_ctor_at_def Allocate_at_def block_at_def put_block_def
        T_defs slot_defs numeral_2_eq_2)
  have ia: "index_assign ?A 0 7 (?h', ?e') = (Inr (), ?h1, ?e')"
    by (simp add: index_assign_def Vector_index_def assign_through_def block_at_def
        put_block_def T_defs slot_defs)
  from Vector_copy_ctor_independent [where h = ?h and a = 2 and A = ?A and T = ?T and e = ?e,
      OF nul ne fresh ok]
  have "\<forall>i x e1. \<exists>res1 h1 e2. index_assign ?A i x (?h', e1) = (res1, h1, e2) \<and>
           vector_at h1 ?B = vector_at ?h' ?B \<and>
           (res1 = Inr () \<longrightarrow>
              elements (vector_at h1 ?A) = (elements (vector_at ?h' ?A))[i := Val x])"
    unfolding ev by (elim exE conjE) (simp del: fun_upd_apply One_nat_def)
  then have "\<exists>res1 h1 e2. index_assign ?A 0 7 (?h', ?e') = (res1, h1, e2) \<and>
           vector_at h1 ?B = vector_at ?h' ?B \<and>
           (res1 = Inr () \<longrightarrow>
              elements (vector_at h1 ?A) = (elements (vector_at ?h' ?A))[0 := Val 7])"
    by blast
  then have ind: "vector_at ?h1 ?B = vector_at ?h' ?B"
    and upd: "elements (vector_at ?h1 ?A) = (elements (vector_at ?h' ?A))[0 := Val 7]"
    unfolding ia by simp_all
  have elB: "elements (vector_at ?h' ?B) = [Val 1, Val 2]"
    by (simp add: elements_def slots_def vector_at_def block_at_def numeral_2_eq_2)
  have elA: "elements (vector_at ?h1 ?A) = [Val 7, Val 2]"
    by (simp add: elements_def slots_def vector_at_def block_at_def numeral_2_eq_2)
  from nul ne fresh ok ev ia ind elB elA show ?thesis by (simp del: fun_upd_apply)
qed

section \<open>Capacity\<close>

text \<open>
  C4, as the claim states it, fails: the move assignment swaps the members of \<open>*this\<close> with
  those of \<open>rhs\<close>, and \<open>RawMemory::Swap\<close> exchanges \<open>capacity_\<close>, so a vector of capacity 4
  that is move-assigned a vector of capacity 1 has capacity 1 afterwards.
\<close>

theorem move_assignment_lowers_capacity:
  "fst (move_assignment 1 2
      (Map.empty(1 \<mapsto> \<lparr>m_data = \<lparr>m_buffer = [Some (Val (5::nat)), None, None, None],
                                     m_capacity = 4\<rparr>, m_size = 1\<rparr>,
                 2 \<mapsto> \<lparr>m_data = \<lparr>m_buffer = [Some (Val 7)], m_capacity = 1\<rparr>, m_size = 1\<rparr>),
       \<lparr>faults = [], news = 2, deletes = 0, leaked = 0\<rparr>)) = Inr () \<and>
   fst (snd (move_assignment 1 2
      (Map.empty(1 \<mapsto> \<lparr>m_data = \<lparr>m_buffer = [Some (Val (5::nat)), None, None, None],
                                     m_capacity = 4\<rparr>, m_size = 1\<rparr>,
                 2 \<mapsto> \<lparr>m_data = \<lparr>m_buffer = [Some (Val 7)], m_capacity = 1\<rparr>, m_size = 1\<rparr>),
       \<lparr>faults = [], news = 2, deletes = 0, leaked = 0\<rparr>))) 1
     = Some \<lparr>m_data = \<lparr>m_buffer = [Some (Val 7)], m_capacity = 1\<rparr>, m_size = 1\<rparr> \<and>
   Capacity \<lparr>m_data = \<lparr>m_buffer = [Some (Val (7::nat))], m_capacity = 1\<rparr>, m_size = 1\<rparr>
     < Capacity \<lparr>m_data = \<lparr>m_buffer = [Some (Val (5::nat)), None, None, None],
                            m_capacity = 4\<rparr>, m_size = 1\<rparr>"
  by (simp add: move_assignment_def Swap_def RawMemory_Swap_def Capacity_def)

text \<open>
  C4, amended. When \<open>EmplaceBack\<close> or \<open>PushBack\<close> returns on a vector with size = capacity, the
  new capacity is \<open>max 1 (2 * capacity)\<close>; they do return when nothing throws and the size is
  below \<open>2 ^ 63\<close>. \<open>Reserve n\<close> with \<open>n\<close> at most the capacity changes nothing at all.
  \<open>EmplaceBack\<close>, \<open>PushBack\<close>, \<open>PopBack\<close>, \<open>Emplace\<close>, \<open>Insert\<close>, \<open>Erase\<close>, \<open>Reserve\<close>, \<open>Resize\<close> and
  the copy assignment never decrease the capacity, whether they return or fail. \<open>Swap\<close>
  exchanges the capacities of the two vectors, and the move assignment of two distinct
  objects is that \<open>Swap\<close>: these decrease the capacity of the vector that had more.
\<close>

theorem capacity_growth:
  fixes T :: "'a traits"
  shows
  "(\<forall>v e t v' e'. m_size v = Capacity v \<and> EmplaceBack T x (v, e) = (Inr t, v', e')
       \<longrightarrow> Capacity v' = max 1 (2 * Capacity v)) \<and>
   (\<forall>v e u v' e'. m_size v = Capacity v \<and> PushBack T x (v, e) = (Inr u, v', e')
       \<longrightarrow> Capacity v' = max 1 (2 * Capacity v)) \<and>
   (\<forall>v e. vector_ok v \<and> m_size v = Capacity v \<and> m_size v < 2 ^ 63 \<and> faults e = []
       \<longrightarrow> (\<exists>v' e'. EmplaceBack T x (v, e) = (Inr (m_size v), v', e') \<and>
                     PushBack T x (v, e) = (Inr (), v', e'))) \<and>
   (\<forall>v e. n \<le> Capacity v \<longrightarrow> Reserve T n (v, e) = (Inr (), v, e)) \<and>
   capacity_not_decreased (EmplaceBack T x) \<and>
   capacity_not_decreased (PushBack T x) \<and>
   capacity_not_decreased (PopBack :: 'a Vector \<times> env \<Rightarrow> (failure + unit) \<times> 'a Vector \<times> env) \<and>
   capacity_not_decreased (Emplace T p x) \<and>
   capacity_not_decreased (Insert T p x) \<and>
   capacity_not_decreased (Erase T p) \<and>
   capacity_not_decreased (Reserve T n) \<and>
   capacity_not_decreased (Resize T n) \<and>
   capacity_not_decreased (\<lambda>(this, e). assign_copy T this rhs e) \<and>
   Capacity (fst (Swap lhs rhs)) = Capacity rhs \<and>
   Capacity (snd (Swap lhs rhs)) = Capacity lhs \<and>
   (\<forall>(h :: 'a store) e i j l r. i \<noteq> j \<and> h i = Some l \<and> h j = Some r
       \<longrightarrow> move_assignment i j (h, e)
             = (Inr (), h(i \<mapsto> fst (Swap l r), j \<mapsto> snd (Swap l r)), e))"
proof -
  have pb: "PushBack T x (v, e) = (res, v', e') \<Longrightarrow>
      \<exists>r. EmplaceBack T x (v, e) = (r, v', e') \<and> (\<forall>u. res = Inr u \<longrightarrow> (\<exists>t. r = Inr t))"
    for v :: "'a Vector" and e res v' e'
    by (auto simp: PushBack_def split: prod.splits sum.splits)
  have a: "\<forall>v e t v' e'. m_size v = Capacity v \<and> EmplaceBack T x (v, e) = (Inr t, v', e')
       \<longrightarrow> Capacity v' = max 1 (2 * Capacity v)"
  proof (intro allI impI)
    fix v :: "'a Vector" and e :: env and t v' e'
    assume h: "m_size v = Capacity v \<and> EmplaceBack T x (v, e) = (Inr t, v', e')"
    then have eb: "EmplaceBack T x (v, e) = (Inr t, v', e')" and full: "m_size v = Capacity v"
      by simp_all
    from EmplaceBack_capacity(2) [OF eb refl full]
    show "Capacity v' = max 1 (2 * Capacity v)" .
  qed
  have b: "\<forall>v e u v' e'. m_size v = Capacity v \<and> PushBack T x (v, e) = (Inr u, v', e')
       \<longrightarrow> Capacity v' = max 1 (2 * Capacity v)"
  proof (intro allI impI)
    fix v :: "'a Vector" and e :: env and u v' e'
    assume h: "m_size v = Capacity v \<and> PushBack T x (v, e) = (Inr u, v', e')"
    with pb [of v e "Inr u" v' e'] obtain t where eb: "EmplaceBack T x (v, e) = (Inr t, v', e')"
      by auto
    from h have full: "m_size v = Capacity v" by simp
    from EmplaceBack_capacity(2) [OF eb refl full]
    show "Capacity v' = max 1 (2 * Capacity v)" .
  qed
  have c: "\<forall>v e. vector_ok v \<and> m_size v = Capacity v \<and> m_size v < 2 ^ 63 \<and> faults e = []
       \<longrightarrow> (\<exists>v' e'. EmplaceBack T x (v, e) = (Inr (m_size v), v', e') \<and>
                     PushBack T x (v, e) = (Inr (), v', e'))"
  proof (intro allI impI)
    fix v :: "'a Vector" and e :: env
    assume h: "vector_ok v \<and> m_size v = Capacity v \<and> m_size v < 2 ^ 63 \<and> faults e = []"
    then have ok: "vector_ok v" and full: "m_size v = Capacity v" by simp_all
    from EmplaceBack_grow_cases [OF ok full, of T x e]
    obtain res v' e' where eb: "EmplaceBack T x (v, e) = (res, v', e')"
      and cs: "case res of
           Inr t \<Rightarrow> t = m_size v \<and> vector_ok v' \<and> Capacity v' = max 1 (2 * Capacity v) \<and>
                    m_size v' = m_size v + 1 \<and> elements v' = elements v @ [Val x]
         | Inl f \<Rightarrow> f = Assert_failed \<and> \<not> m_size v < 2 ^ 63 \<or>
                    (f = Raised Bad_alloc \<or> f = Raised Element_error) \<and> faults e \<noteq> []"
      by blast
    from cs h have "res = Inr (m_size v)" by (cases res) auto
    with eb show "\<exists>v' e'. EmplaceBack T x (v, e) = (Inr (m_size v), v', e') \<and>
                     PushBack T x (v, e) = (Inr (), v', e')"
      by (simp add: PushBack_def)
  qed
  have d: "\<forall>v e. n \<le> Capacity v \<longrightarrow> Reserve T n (v, e) = (Inr (), v, e)"
    by (simp add: Reserve_def Capacity_def)
  have m1: "capacity_not_decreased (EmplaceBack T x)"
    by (rule capacity_not_decreasedI) (rule EmplaceBack_capacity(1))
  have m2: "capacity_not_decreased (PushBack T x)"
  proof (rule capacity_not_decreasedI)
    fix v :: "'a Vector" and e :: env and res :: "failure + unit" and v' :: "'a Vector"
      and e' :: env
    assume p: "PushBack T x (v, e) = (res, v', e')"
    obtain r w e2 where eb: "EmplaceBack T x (v, e) = (r, w, e2)"
      by (cases "EmplaceBack T x (v, e)")
    with p have "w = v'" by (cases r) (simp_all add: PushBack_def)
    with EmplaceBack_capacity(1) [OF eb] show "Capacity v \<le> Capacity v'" by simp
  qed
  have m3: "capacity_not_decreased (PopBack :: 'a Vector \<times> env \<Rightarrow> _)"
    by (rule capacity_not_decreasedI) (simp add: PopBack_capacity)
  have m4: "capacity_not_decreased (Emplace T p x)"
    by (rule capacity_not_decreasedI) (rule Emplace_capacity)
  have m5: "capacity_not_decreased (Insert T p x)"
    unfolding Insert_def by (rule m4)
  have m6: "capacity_not_decreased (Erase T p)"
    by (rule capacity_not_decreasedI) (simp add: Erase_capacity)
  have m7: "capacity_not_decreased (Reserve T n)"
    by (rule capacity_not_decreasedI) (rule Reserve_capacity)
  have m8: "capacity_not_decreased (Resize T n)"
    by (rule capacity_not_decreasedI) (rule Resize_capacity)
  have m9: "capacity_not_decreased (\<lambda>(this, e). assign_copy T this rhs e)"
    by (rule capacity_not_decreasedI) (simp add: assign_copy_capacity)
  have s1: "Capacity (fst (Swap lhs rhs)) = Capacity rhs"
    by (simp add: Swap_def RawMemory_Swap_def Capacity_def)
  have s2: "Capacity (snd (Swap lhs rhs)) = Capacity lhs"
    by (simp add: Swap_def RawMemory_Swap_def Capacity_def)
  have s3: "\<forall>(h :: 'a store) e i j l r. i \<noteq> j \<and> h i = Some l \<and> h j = Some r
       \<longrightarrow> move_assignment i j (h, e)
             = (Inr (), h(i \<mapsto> fst (Swap l r), j \<mapsto> snd (Swap l r)), e)"
    by (simp add: move_assignment_def split: prod.splits)
  from a b c d m1 m2 m3 m4 m5 m6 m7 m8 m9 s1 s2 s3 show ?thesis
    by (intro conjI) assumption+
qed

theorem capacity_growth_witness:
  "m_size \<lparr>m_data = \<lparr>m_buffer = [Some (Val (1::nat))], m_capacity = 1\<rparr>, m_size = 1\<rparr>
     = Capacity \<lparr>m_data = \<lparr>m_buffer = [Some (Val (1::nat))], m_capacity = 1\<rparr>, m_size = 1\<rparr> \<and>
   EmplaceBack \<lparr>nothrow_move_constructible = False, copy_constructible = True,
                 nothrow_move_assignable = False, value_initialized = 0\<rparr> (9::nat)
     (\<lparr>m_data = \<lparr>m_buffer = [Some (Val 1)], m_capacity = 1\<rparr>, m_size = 1\<rparr>,
      \<lparr>faults = [], news = 1, deletes = 0, leaked = 0\<rparr>)
   = (Inr 1, \<lparr>m_data = \<lparr>m_buffer = [Some (Val 1), Some (Val 9)], m_capacity = 2\<rparr>, m_size = 2\<rparr>,
      \<lparr>faults = [], news = 2, deletes = 1, leaked = 0\<rparr>) \<and>
   Capacity \<lparr>m_data = \<lparr>m_buffer = [Some (Val (1::nat)), Some (Val 9)], m_capacity = 2\<rparr>, m_size = 2\<rparr>
     = max 1 (2 * Capacity \<lparr>m_data = \<lparr>m_buffer = [Some (Val (1::nat))], m_capacity = 1\<rparr>,
                            m_size = 1\<rparr>) \<and>
   (1::nat) \<le> Capacity \<lparr>m_data = \<lparr>m_buffer = [Some (Val (1::nat))], m_capacity = 1\<rparr>, m_size = 1\<rparr> \<and>
   Reserve \<lparr>nothrow_move_constructible = False, copy_constructible = True,
             nothrow_move_assignable = False, value_initialized = 0\<rparr> 1
     (\<lparr>m_data = \<lparr>m_buffer = [Some (Val (1::nat))], m_capacity = 1\<rparr>, m_size = 1\<rparr>,
      \<lparr>faults = [True], news = 1, deletes = 0, leaked = 0\<rparr>)
   = (Inr (), \<lparr>m_data = \<lparr>m_buffer = [Some (Val 1)], m_capacity = 1\<rparr>, m_size = 1\<rparr>,
      \<lparr>faults = [True], news = 1, deletes = 0, leaked = 0\<rparr>)"
proof -
  let ?v = "\<lparr>m_data = \<lparr>m_buffer = [Some (Val (1::nat))], m_capacity = 1\<rparr>, m_size = 1\<rparr>"
  let ?v' = "\<lparr>m_data = \<lparr>m_buffer = [Some (Val (1::nat)), Some (Val 9)], m_capacity = 2\<rparr>, m_size = 2\<rparr>"
  let ?T = "\<lparr>nothrow_move_constructible = False, copy_constructible = True,
             nothrow_move_assignable = False, value_initialized = 0::nat\<rparr>"
  let ?e = "\<lparr>faults = [], news = 1, deletes = 0, leaked = 0\<rparr>"
  let ?e' = "\<lparr>faults = [], news = 2, deletes = 1, leaked = 0\<rparr>"
  let ?e2 = "\<lparr>faults = [True], news = 1, deletes = 0, leaked = 0\<rparr>"
  have full: "m_size ?v = Capacity ?v" by (simp add: Capacity_def)
  have ev: "EmplaceBack ?T 9 (?v, ?e) = (Inr 1, ?v', ?e')"
    by (simp add: EmplaceBack_def T_defs slot_defs raw_defs vec_defs replicate_2)
  have le: "(1::nat) \<le> Capacity ?v" by (simp add: Capacity_def)
  note th = capacity_growth [where T = ?T and x = 9 and n = 1 and p = 0 and rhs = ?v and lhs = ?v]
  from th have "Capacity ?v' = max 1 (2 * Capacity ?v)" using full ev by blast
  moreover from th have "Reserve ?T 1 (?v, ?e2) = (Inr (), ?v, ?e2)" using le by blast
  ultimately show ?thesis using full ev le by simp
qed
end
